theory Spec2Isabelle
  imports Complex_Main "HOL-Library.Char_ord" "HOL-Library.AList"
begin

section \<open>Strings and the built-ins used by the name normalisation\<close>

text \<open>
  JavaScript strings are modelled as \<^typ>\<open>string\<close>; a \<^typ>\<open>char\<close> stands for one code unit
  below 256 (ASCII and Latin-1), which is the range the model covers.
\<close>

definition isLowerAlnum :: "char \<Rightarrow> bool" where
  \<comment> \<open>the character class \<open>[a-z0-9]\<close>\<close>
  "isLowerAlnum c =
     (let n = (of_char c :: nat) in (97 \<le> n \<and> n \<le> 122) \<or> (48 \<le> n \<and> n \<le> 57))"

definition isHyphen :: "char \<Rightarrow> bool" where
  "isHyphen c = (c = CHR ''-'')"

definition toLowerCase_char :: "char \<Rightarrow> char" where
  \<comment> \<open>\<open>String.prototype.toLowerCase\<close> on one code unit: A-Z and the Latin-1 capitals\<close>
  "toLowerCase_char c =
     (let n = (of_char c :: nat) in
      if (65 \<le> n \<and> n \<le> 90) \<or> (192 \<le> n \<and> n \<le> 222 \<and> n \<noteq> 215)
      then char_of (n + 32) else c)"

definition toLowerCase :: "string \<Rightarrow> string" where
  "toLowerCase s = map toLowerCase_char s"

definition isWhiteSpace :: "char \<Rightarrow> bool" where
  \<comment> \<open>what \<open>String.prototype.trim\<close> strips: TAB, LF, VT, FF, CR, SP, NBSP\<close>
  "isWhiteSpace c = ((of_char c :: nat) \<in> {9, 10, 11, 12, 13, 32, 160})"

definition trim :: "string \<Rightarrow> string" where
  "trim s = rev (dropWhile isWhiteSpace (rev (dropWhile isWhiteSpace s)))"

text \<open>\<open>.replace(/[^a-z0-9]+/g, '-')\<close>: every maximal run of other characters becomes one hyphen.\<close>

function replaceNonAlnumRuns :: "string \<Rightarrow> string" where
  "replaceNonAlnumRuns [] = []"
| "replaceNonAlnumRuns (c # cs) =
     (if isLowerAlnum c then c # replaceNonAlnumRuns cs
      else CHR ''-'' # replaceNonAlnumRuns (dropWhile (\<lambda>d. \<not> isLowerAlnum d) cs))"
  by pat_completeness auto
termination
  by (relation "measure length") (auto simp: length_dropWhile_le less_Suc_eq_le)

text \<open>\<open>.replace(/^-+|-+$/g, '')\<close>: the leading and the trailing run of hyphens are removed.\<close>

definition stripHyphens :: "string \<Rightarrow> string" where
  "stripHyphens s = rev (dropWhile isHyphen (rev (dropWhile isHyphen s)))"

definition formatSkillName :: "string \<Rightarrow> string" where
  "formatSkillName name = stripHyphens (replaceNonAlnumRuns (trim (toLowerCase name)))"

text \<open>The regular expression \<open>/^[a-z0-9-]+$/\<close> of \<open>validateSkillName\<close>.\<close>

definition isSlug :: "string \<Rightarrow> bool" where
  "isSlug s = (s \<noteq> [] \<and> list_all (\<lambda>c. isLowerAlnum c \<or> isHyphen c) s)"

text \<open>
  The normal form as the specification words it: lowercase alphanumerics and hyphens, with
  no hyphen at either end.
\<close>

definition normalizedAsSpecified :: "string \<Rightarrow> bool" where
  "normalizedAsSpecified s =
     (list_all (\<lambda>c. isLowerAlnum c \<or> isHyphen c) s \<and>
      (s = [] \<or> (\<not> isHyphen (hd s) \<and> \<not> isHyphen (last s))))"

definition noAdjacentHyphens :: "string \<Rightarrow> bool" where
  "noAdjacentHyphens s = successively (\<lambda>c d. \<not> (isHyphen c \<and> isHyphen d)) s"

text \<open>The image of the normalisation: the specified normal form without doubled hyphens.\<close>

definition normalizedName :: "string \<Rightarrow> bool" where
  "normalizedName s = (normalizedAsSpecified s \<and> noAdjacentHyphens s)"

section \<open>JavaScript values\<close>

text \<open>
  The values \<open>JSON.parse\<close> produces. A number is a double; \<open>JSON.parse\<close> never yields
  \<open>NaN\<close>, and yields an infinity only for a literal beyond the range of doubles. A finite
  double is given by its exact rational value.
\<close>

datatype jsnumber = Finite rat | PosInfinity | NegInfinity

datatype json =
    JNull
  | JBool bool
  | JNum jsnumber
  | JStr string
  | JArr "json list"
  | JObj "(string \<times> json) list"

fun num_less :: "jsnumber \<Rightarrow> jsnumber \<Rightarrow> bool" where
  "num_less (Finite a) (Finite b) = (a < b)"
| "num_less NegInfinity NegInfinity = False"
| "num_less NegInfinity _ = True"
| "num_less _ NegInfinity = False"
| "num_less PosInfinity _ = False"
| "num_less _ PosInfinity = True"

text \<open>\<open>!v\<close> is \<open>\<not> truthy v\<close>; \<open>None\<close> stands for \<open>undefined\<close>.\<close>

fun truthy :: "json \<Rightarrow> bool" where
  "truthy JNull = False"
| "truthy (JBool b) = b"
| "truthy (JNum n) = (n \<noteq> Finite 0)"
| "truthy (JStr s) = (s \<noteq> [])"
| "truthy (JArr _) = True"
| "truthy (JObj _) = True"

definition truthy_opt :: "json option \<Rightarrow> bool" where
  "truthy_opt v = (case v of None \<Rightarrow> False | Some x \<Rightarrow> truthy x)"

fun typeof :: "json \<Rightarrow> string" where
  "typeof JNull = ''object''"
| "typeof (JBool _) = ''boolean''"
| "typeof (JNum _) = ''number''"
| "typeof (JStr _) = ''string''"
| "typeof (JArr _) = ''object''"
| "typeof (JObj _) = ''object''"

text \<open>
  Reading a named (non-index, non-\<open>length\<close>) property: an object looks its own key up, every
  other value has no such property.
\<close>

fun getProp :: "json \<Rightarrow> string \<Rightarrow> json option" where
  "getProp (JObj kvs) k = map_of kvs k"
| "getProp _ k = None"

text \<open>Assigning a property of an object: an existing key keeps its place, a new one is appended.\<close>

fun setProp :: "json \<Rightarrow> string \<Rightarrow> json \<Rightarrow> json" where
  "setProp (JObj kvs) k v = JObj (AList.update k v kvs)"
| "setProp x k v = x"

section \<open>Errors\<close>

text \<open>
  The value \<open>retryAfter\<close> of a \<open>RateLimitError\<close>: the text of the \<open>retry-after\<close> header, or
  the number 60 when the header is missing or empty.
\<close>

datatype retry_after = HeaderValue string | DefaultSeconds

fun retryAfterText :: "retry_after \<Rightarrow> string" where
  "retryAfterText (HeaderValue h) = h"
| "retryAfterText DefaultSeconds = ''60''"

text \<open>
  What the code throws: a plain \<open>Error\<close>, the class \<open>ClaudeAPIError\<close> (message, code, status,
  retryable) and its three subclasses, and \<open>undefined\<close> (the \<open>lastError\<close> of a retry loop
  that never ran).
\<close>

datatype js_error =
    PlainError string
  | ClaudeAPIError string string nat bool
  | AnalysisError string
  | RateLimitError string retry_after
  | ServiceError string bool
  | ThrownUndefined

fun retryable :: "js_error \<Rightarrow> bool" where
  "retryable (PlainError _) = False"
| "retryable (ClaudeAPIError _ _ _ r) = r"
| "retryable (AnalysisError _) = False"
| "retryable (RateLimitError _ _) = True"
| "retryable (ServiceError _ r) = r"
| "retryable ThrownUndefined = False"

fun error_code :: "js_error \<Rightarrow> string option" where
  "error_code (PlainError _) = None"
| "error_code (ClaudeAPIError _ c _ _) = Some c"
| "error_code (AnalysisError _) = Some ''ANALYSIS_ERROR''"
| "error_code (RateLimitError _ _) = Some ''RATE_LIMIT''"
| "error_code (ServiceError _ _) = Some ''SERVER_ERROR''"
| "error_code ThrownUndefined = None"

fun error_status :: "js_error \<Rightarrow> nat option" where
  "error_status (PlainError _) = None"
| "error_status (ClaudeAPIError _ _ s _) = Some s"
| "error_status (AnalysisError _) = Some 0"
| "error_status (RateLimitError _ _) = Some 429"
| "error_status (ServiceError _ _) = Some 500"
| "error_status ThrownUndefined = None"

text \<open>
  \<open>error.message\<close>. Reading it from \<open>undefined\<close> raises a \<open>TypeError\<close>, whose message is
  given here.
\<close>

fun error_message :: "js_error \<Rightarrow> string" where
  "error_message (PlainError m) = m"
| "error_message (ClaudeAPIError m _ _ _) = m"
| "error_message (AnalysisError m) = m"
| "error_message (RateLimitError m _) = m"
| "error_message (ServiceError m _) = m"
| "error_message ThrownUndefined = ''Cannot read properties of undefined (reading 'message')''"

section \<open>Response validation\<close>

definition validConfidence :: "json option \<Rightarrow> bool" where
  \<comment> \<open>the negation of \<open>typeof c !== 'number' || c < 0 || c > 1\<close>\<close>
  "validConfidence c =
     (case c of
        Some (JNum n) \<Rightarrow> \<not> num_less n (Finite 0) \<and> \<not> num_less (Finite 1) n
      | _ \<Rightarrow> False)"

definition validateAnalysisResponse :: "json \<Rightarrow> js_error + json" where
  "validateAnalysisResponse parsed =
     (if \<not> truthy parsed \<or> typeof parsed \<noteq> ''object''
      then Inl (PlainError ''Response must be an object'')
      else if \<not> truthy_opt (getProp parsed ''extractedData'')
      then Inl (PlainError ''Missing extractedData field'')
      else if \<not> validConfidence (getProp parsed ''confidence'')
      then Inr (setProp parsed ''confidence'' (JNum (Finite (1/2))))
      else Inr parsed)"

text \<open>The precondition of validation as the specification words it: the field is present.\<close>

definition hasExtractedDataField :: "json \<Rightarrow> bool" where
  "hasExtractedDataField parsed = (getProp parsed ''extractedData'' \<noteq> None)"

definition confidenceInUnitInterval :: "json \<Rightarrow> bool" where
  "confidenceInUnitInterval v =
     (case getProp v ''confidence'' of
        Some (JNum (Finite c)) \<Rightarrow> 0 \<le> c \<and> c \<le> 1
      | _ \<Rightarrow> False)"


section \<open>The client of the external analysis service\<close>

text \<open>
  What \<open>client.messages.create\<close> can do: answer with a text, or throw an error of which the
  code reads \<open>status\<close>, \<open>headers?.['retry-after']\<close>, \<open>code\<close> and \<open>message\<close>.
\<close>

record transport_error =
  te_status :: "nat option"
  te_retry_after :: "string option"
  te_code :: "string option"
  te_message :: string

datatype api_outcome = Responded string | Threw transport_error

text \<open>
  The world outside the program: the \<open>n\<close>-th call of the external service takes some
  milliseconds and has some outcome, \<open>crypto\<close>'s MD5 digest in hexadecimal, and the
  \<open>n\<close>-th random UUID.
\<close>

record env =
  service :: "nat \<Rightarrow> nat \<times> api_outcome"
  md5hex :: "string \<Rightarrow> string"
  randomUUID :: "nat \<Rightarrow> string"

text \<open>
  The state the client works on: the clock (\<open>Date.now()\<close>, in milliseconds), the number of
  calls made to the external service so far, and the ledger \<open>rateLimiter.requests\<close>.
\<close>

record client_state =
  now :: int
  api_calls :: nat
  requests :: "int list"

definition sleep :: "int \<Rightarrow> 'a client_state_scheme \<Rightarrow> 'a client_state_scheme" where
  "sleep ms st = st\<lparr>now := now st + ms\<rparr>"

definition retryAfterOfHeader :: "string option \<Rightarrow> retry_after" where
  \<comment> \<open>\<open>error.headers?.['retry-after'] || 60\<close>\<close>
  "retryAfterOfHeader h =
     (case h of None \<Rightarrow> DefaultSeconds
      | Some v \<Rightarrow> if v = [] then DefaultSeconds else HeaderValue v)"

definition classify :: "transport_error \<Rightarrow> js_error" where
  \<comment> \<open>the \<open>catch\<close> block of \<open>callClaudeAPI\<close>\<close>
  "classify error =
     (if te_status error = Some 429
      then (let retryAfter = retryAfterOfHeader (te_retry_after error)
            in RateLimitError
                 (''Rate limit exceeded. Retry after '' @ retryAfterText retryAfter @ ''s'')
                 retryAfter)
      else if te_status error = Some 401
      then ClaudeAPIError ''Invalid API key'' ''AUTH_ERROR'' 401 False
      else if (case te_status error of Some s \<Rightarrow> 500 \<le> s | None \<Rightarrow> False)
      then ServiceError ''Claude API server error'' True
      else if te_status error = Some 400
      then ClaudeAPIError (''Invalid request: '' @ te_message error) ''INVALID_REQUEST'' 400 False
      else if te_code error = Some ''ETIMEDOUT'' \<or> te_code error = Some ''ECONNRESET''
      then ClaudeAPIError ''Network timeout'' ''TIMEOUT'' 0 True
      else ClaudeAPIError (te_message error) ''UNKNOWN''
             (case te_status error of Some s \<Rightarrow> s | None \<Rightarrow> 0) False)"

definition callClaudeAPI ::
  "env \<Rightarrow> 'a client_state_scheme \<Rightarrow> (js_error + string) \<times> 'a client_state_scheme" where
  "callClaudeAPI e st =
     (let (latency, outcome) = service e (api_calls st);
          st' = st\<lparr>now := now st + int latency, api_calls := Suc (api_calls st)\<rparr>
      in case outcome of
           Responded text \<Rightarrow> (Inr text, st')
         | Threw error \<Rightarrow> (Inl (classify error), st'))"

definition backoffMs :: "nat \<Rightarrow> int" where
  "backoffMs attempt = min (2 ^ attempt * 1000) 30000"

text \<open>
  The loop \<open>for (attempt = 1; attempt <= maxRetries; attempt++)\<close> of \<open>callClaudeWithRetry\<close>,
  from a given \<open>attempt\<close> on, with the \<open>lastError\<close> recorded so far.
\<close>

function retryLoop ::
  "env \<Rightarrow> nat \<Rightarrow> nat \<Rightarrow> js_error \<Rightarrow> 'a client_state_scheme \<Rightarrow>
   (js_error + string) \<times> 'a client_state_scheme" where
  "retryLoop e maxRetries attempt lastError st =
     (if attempt \<le> maxRetries then
        (case callClaudeAPI e st of
           (Inr text, st1) \<Rightarrow> (Inr text, st1)
         | (Inl error, st1) \<Rightarrow>
             if \<not> retryable error then (Inl error, st1)
             else if attempt = maxRetries then (Inl error, st1)
             else retryLoop e maxRetries (Suc attempt) error (sleep (backoffMs attempt) st1))
      else (Inl lastError, st))"
  by pat_completeness auto
termination
  by (relation "measure (\<lambda>(e, maxRetries, attempt, lastError, st). Suc maxRetries - attempt)") auto

declare retryLoop.simps [simp del]

definition callClaudeWithRetry ::
  "env \<Rightarrow> nat \<Rightarrow> 'a client_state_scheme \<Rightarrow> (js_error + string) \<times> 'a client_state_scheme" where
  "callClaudeWithRetry e maxRetries st = retryLoop e maxRetries 1 ThrownUndefined st"

text \<open>The one rate limiter of the program: \<open>new RateLimiter(50, 60000)\<close>.\<close>

definition maxRequests :: nat where
  "maxRequests = 50"

definition windowMs :: int where
  "windowMs = 60000"

text \<open>
  \<open>RateLimiter.acquire\<close> on the clock and the ledger: old entries are dropped; at the limit
  the caller sleeps until the oldest entry leaves the window and tries again; otherwise the
  request is recorded. A sleep is taken to last exactly as long as asked.
\<close>

function acquireLoop :: "int \<Rightarrow> int list \<Rightarrow> int \<times> int list" where
  "acquireLoop t reqs =
     (if maxRequests \<le> length (filter (\<lambda>time. t - time < windowMs) reqs)
      then acquireLoop
             (t + (windowMs - (t - Min (set (filter (\<lambda>time. t - time < windowMs) reqs)))))
             (filter (\<lambda>time. t - time < windowMs) reqs)
      else (t, filter (\<lambda>time. t - time < windowMs) reqs @ [t]))"
  by pat_completeness auto
termination
proof (relation "measure (\<lambda>(t, reqs). length (filter (\<lambda>time. t - time < windowMs) reqs))")
  show "wf (measure (\<lambda>(t, reqs). length (filter (\<lambda>time. t - time < windowMs) reqs)))"
    by simp
next
  fix t :: int and reqs :: "int list"
  let ?kept = "filter (\<lambda>time. t - time < windowMs) reqs"
  let ?t' = "t + (windowMs - (t - Min (set ?kept)))"
  assume "maxRequests \<le> length ?kept"
  then have "?kept \<noteq> []" unfolding maxRequests_def by (cases ?kept) simp_all
  then have ne: "set ?kept \<noteq> {}" by (simp only: set_empty not_False_eq_True)
  then have m: "Min (set ?kept) \<in> set ?kept" by (intro Min_in) simp_all
  have "\<not> (?t' - Min (set ?kept) < windowMs)" by simp
  with m have "length (filter (\<lambda>time. ?t' - time < windowMs) ?kept) < length ?kept"
    by (rule length_filter_less)
  then show "((?t', ?kept), (t, reqs)) \<in>
     measure (\<lambda>(t, reqs). length (filter (\<lambda>time. t - time < windowMs) reqs))"
    by simp
qed

declare acquireLoop.simps [simp del]

definition acquire :: "'a client_state_scheme \<Rightarrow> 'a client_state_scheme" where
  "acquire st =
     (let (t, reqs) = acquireLoop (now st) (requests st) in st\<lparr>now := t, requests := reqs\<rparr>)"

definition callClaudeWithRateLimit ::
  "env \<Rightarrow> 'a client_state_scheme \<Rightarrow> (js_error + string) \<times> 'a client_state_scheme" where
  \<comment> \<open>\<open>callClaudeWithRetry(prompt, options)\<close>: \<open>maxRetries\<close> takes its default, 3\<close>
  "callClaudeWithRateLimit e st = callClaudeWithRetry e 3 (acquire st)"

text \<open>A transport error with HTTP status 429.\<close>

definition rateLimited :: "api_outcome \<Rightarrow> bool" where
  "rateLimited outcome = (case outcome of Threw error \<Rightarrow> te_status error = Some 429 | _ \<Rightarrow> False)"

definition retryAfterOf :: "api_outcome \<Rightarrow> retry_after" where
  "retryAfterOf outcome =
     (case outcome of Threw error \<Rightarrow> retryAfterOfHeader (te_retry_after error)
      | _ \<Rightarrow> DefaultSeconds)"


text \<open>
  Two scripts of the external service, for concrete runs: it answers 429 with
  \<open>retry-after: 7\<close> to the first \<open>k\<close> calls and with the text \<open>{}\<close> from then on.
\<close>

definition tooManyRequests :: transport_error where
  "tooManyRequests =
     \<lparr>te_status = Some 429, te_retry_after = Some ''7'', te_code = None,
      te_message = ''Too Many Requests''\<rparr>"

definition rateLimitedFirst :: "nat \<Rightarrow> env" where
  "rateLimitedFirst k =
     \<lparr>service = (\<lambda>n. if n < k then (0, Threw tooManyRequests) else (0, Responded ''{}'')),
      md5hex = (\<lambda>s. s),
      randomUUID = (\<lambda>n. ''00000000-0000-4000-8000-000000000000'')\<rparr>"

definition freshClient :: client_state where
  "freshClient = \<lparr>now = 0, api_calls = 0, requests = []\<rparr>"


section \<open>Parsing the response text\<close>

text \<open>
  \<open>JSON.parse\<close>, a built-in of the runtime, as a recursive-descent parser of the JSON
  grammar. A number literal is read at its exact decimal value, which stands for the double
  nearest to it (the rounding is not modelled), and as an infinity from the magnitude on that
  rounds beyond the largest double. A \<open>\u\<close> escape is read when its code unit is below 256.
  An object keeps, for a repeated key, the place of the first and the value of the last
  occurrence, and its members in the order of the text (the runtime lists the keys that are
  array indices first). The recursion is bounded by a counter that the input length covers: every
  nested call comes after at least one consumed character of the text.
\<close>

definition isJsonWs :: "char \<Rightarrow> bool" where
  "isJsonWs c = (c = CHR '' '' \<or> c = CHR 0x09 \<or> c = CHR 0x0A \<or> c = CHR 0x0D)"

definition skipWs :: "string \<Rightarrow> string" where
  "skipWs s = dropWhile isJsonWs s"

definition isDigit :: "char \<Rightarrow> bool" where
  "isDigit c = (let n = (of_char c :: nat) in 48 \<le> n \<and> n \<le> 57)"

definition digitsVal :: "string \<Rightarrow> nat" where
  "digitsVal ds = foldl (\<lambda>acc d. 10 * acc + ((of_char d :: nat) - 48)) 0 ds"

definition hexVal :: "char \<Rightarrow> nat option" where
  "hexVal c =
     (let n = (of_char c :: nat) in
      if 48 \<le> n \<and> n \<le> 57 then Some (n - 48)
      else if 65 \<le> n \<and> n \<le> 70 then Some (n - 55)
      else if 97 \<le> n \<and> n \<le> 102 then Some (n - 87)
      else None)"

definition hex4 :: "char \<Rightarrow> char \<Rightarrow> char \<Rightarrow> char \<Rightarrow> nat option" where
  "hex4 a b c d =
     (case (hexVal a, hexVal b, hexVal c, hexVal d) of
        (Some w, Some x, Some y, Some z) \<Rightarrow> Some (4096 * w + 256 * x + 16 * y + z)
      | _ \<Rightarrow> None)"

definition unescape :: "char \<Rightarrow> char option" where
  "unescape e =
     (if e = CHR 0x22 then Some (CHR 0x22)
      else if e = CHR 0x5C then Some (CHR 0x5C)
      else if e = CHR ''/'' then Some (CHR ''/'')
      else if e = CHR ''b'' then Some (CHR 0x08)
      else if e = CHR ''f'' then Some (CHR 0x0C)
      else if e = CHR ''n'' then Some (CHR 0x0A)
      else if e = CHR ''r'' then Some (CHR 0x0D)
      else if e = CHR ''t'' then Some (CHR 0x09)
      else None)"

definition consFst :: "char \<Rightarrow> (string \<times> string) option \<Rightarrow> (string \<times> string) option" where
  "consFst c r = (case r of None \<Rightarrow> None | Some (s, t) \<Rightarrow> Some (c # s, t))"

text \<open>The characters of a string literal after its opening quote, and the text after it.\<close>

fun parseString :: "string \<Rightarrow> (string \<times> string) option" where
  "parseString [] = None"
| "parseString (c # cs) =
     (if c = CHR 0x22 then Some ([], cs)
      else if c = CHR 0x5C then
        (case cs of
           [] \<Rightarrow> None
         | e # r \<Rightarrow>
             if e = CHR ''u'' then
               (case r of
                  h1 # h2 # h3 # h4 # r' \<Rightarrow>
                    (case hex4 h1 h2 h3 h4 of
                       None \<Rightarrow> None
                     | Some n \<Rightarrow> if n < 256 then consFst (char_of n) (parseString r') else None)
                | _ \<Rightarrow> None)
             else (case unescape e of
                     None \<Rightarrow> None
                   | Some ch \<Rightarrow> consFst ch (parseString r)))
      else if (of_char c :: nat) < 32 then None
      else consFst c (parseString cs))"

definition toDouble :: "rat \<Rightarrow> jsnumber" where
  \<comment> \<open>the first test decides nothing: it spares evaluating the bound for everyday values\<close>
  "toDouble v =
     (if - 1000000 \<le> v \<and> v \<le> 1000000 then Finite v
      else if 2 ^ 1024 - 2 ^ 970 \<le> v then PosInfinity
      else if v \<le> - (2 ^ 1024 - 2 ^ 970) then NegInfinity
      else Finite v)"

definition parseSign :: "string \<Rightarrow> bool \<times> string" where
  "parseSign s =
     (case s of [] \<Rightarrow> (False, s) | c # r \<Rightarrow> if c = CHR ''-'' then (True, r) else (False, s))"

definition parseFraction :: "string \<Rightarrow> (string \<times> string) option" where
  "parseFraction s =
     (case s of
        [] \<Rightarrow> Some ([], s)
      | c # r \<Rightarrow>
          if c = CHR ''.''
          then (if takeWhile isDigit r = [] then None
                else Some (takeWhile isDigit r, dropWhile isDigit r))
          else Some ([], s))"

definition parseExponent :: "string \<Rightarrow> (bool \<times> string \<times> string) option" where
  "parseExponent s =
     (case s of
        [] \<Rightarrow> Some (False, [], s)
      | c # r \<Rightarrow>
          if c = CHR ''e'' \<or> c = CHR ''E''
          then (let (neg, r1) =
                      (case r of
                         [] \<Rightarrow> (False, r)
                       | d # r' \<Rightarrow> if d = CHR ''-'' then (True, r')
                                  else if d = CHR ''+'' then (False, r') else (False, r))
                in if takeWhile isDigit r1 = [] then None
                   else Some (neg, takeWhile isDigit r1, dropWhile isDigit r1))
          else Some (False, [], s))"

definition parseNumber :: "string \<Rightarrow> (json \<times> string) option" where
  "parseNumber s =
     (let (neg, s1) = parseSign s;
          ip = takeWhile isDigit s1
      in if ip = [] \<or> (1 < length ip \<and> hd ip = CHR ''0'') then None
         else case parseFraction (dropWhile isDigit s1) of
                None \<Rightarrow> None
              | Some (fp, s3) \<Rightarrow>
                  (case parseExponent s3 of
                     None \<Rightarrow> None
                   | Some (eneg, ed, s4) \<Rightarrow>
                       (let mant = (of_nat (digitsVal (ip @ fp)) :: rat) / 10 ^ length fp;
                            v = (if eneg then mant / 10 ^ digitsVal ed
                                 else mant * 10 ^ digitsVal ed)
                        in Some (JNum (toDouble (if neg then - v else v)), s4))))"


fun parseValue :: "nat \<Rightarrow> string \<Rightarrow> (json \<times> string) option"
  and parseElements :: "nat \<Rightarrow> json list \<Rightarrow> string \<Rightarrow> (json \<times> string) option"
  and parseMembers :: "nat \<Rightarrow> (string \<times> json) list \<Rightarrow> string \<Rightarrow> (json \<times> string) option"
where
  "parseValue 0 s = None"
| "parseValue (Suc fuel) s =
     (case skipWs s of
        [] \<Rightarrow> None
      | c # cs \<Rightarrow>
          if c = CHR ''{'' then
            (case skipWs cs of
               [] \<Rightarrow> None
             | d # r \<Rightarrow> if d = CHR ''}'' then Some (JObj [], r) else parseMembers fuel [] cs)
          else if c = CHR ''['' then
            (case skipWs cs of
               [] \<Rightarrow> None
             | d # r \<Rightarrow> if d = CHR '']'' then Some (JArr [], r) else parseElements fuel [] cs)
          else if c = CHR 0x22 then
            (case parseString cs of None \<Rightarrow> None | Some (str, r) \<Rightarrow> Some (JStr str, r))
          else if take 4 (c # cs) = ''true'' then Some (JBool True, drop 4 (c # cs))
          else if take 5 (c # cs) = ''false'' then Some (JBool False, drop 5 (c # cs))
          else if take 4 (c # cs) = ''null'' then Some (JNull, drop 4 (c # cs))
          else parseNumber (c # cs))"
| "parseElements 0 acc s = None"
| "parseElements (Suc fuel) acc s =
     (case parseValue fuel s of
        None \<Rightarrow> None
      | Some (v, r) \<Rightarrow>
          (case skipWs r of
             [] \<Rightarrow> None
           | d # r' \<Rightarrow>
               if d = CHR '','' then parseElements fuel (acc @ [v]) r'
               else if d = CHR '']'' then Some (JArr (acc @ [v]), r')
               else None))"
| "parseMembers 0 acc s = None"
| "parseMembers (Suc fuel) acc s =
     (case skipWs s of
        [] \<Rightarrow> None
      | q # r \<Rightarrow>
          if q \<noteq> CHR 0x22 then None
          else (case parseString r of
                  None \<Rightarrow> None
                | Some (k, r1) \<Rightarrow>
                    (case skipWs r1 of
                       [] \<Rightarrow> None
                     | colon # r2 \<Rightarrow>
                         if colon \<noteq> CHR '':'' then None
                         else (case parseValue fuel r2 of
                                 None \<Rightarrow> None
                               | Some (v, r3) \<Rightarrow>
                                   (case skipWs r3 of
                                      [] \<Rightarrow> None
                                    | d # r4 \<Rightarrow>
                                        if d = CHR '','' then
                                          parseMembers fuel (AList.update k v acc) r4
                                        else if d = CHR ''}'' then
                                          Some (JObj (AList.update k v acc), r4)
                                        else None)))))"

definition JSON_parse :: "string \<Rightarrow> json option" where
  "JSON_parse text =
     (case parseValue (2 * length text + 2) text of
        None \<Rightarrow> None
      | Some (v, rest) \<Rightarrow> if skipWs rest = [] then Some v else None)"

text \<open>
  \<open>text.match(/```json\n([\s\S]*?)\n```/)\<close>: the text between the first opening fence and
  the first closing fence after it. \<open>findSub pat s\<close> splits \<open>s\<close> at the first occurrence
  of \<open>pat\<close>.
\<close>

fun findSub :: "string \<Rightarrow> string \<Rightarrow> (string \<times> string) option" where
  "findSub pat [] = (if pat = [] then Some ([], []) else None)"
| "findSub pat (c # cs) =
     (if take (length pat) (c # cs) = pat then Some ([], drop (length pat) (c # cs))
      else consFst c (findSub pat cs))"

definition fenceOpen :: string where
  "fenceOpen = ''```json'' @ [CHR 0x0A]"

definition fenceClose :: string where
  "fenceClose = CHR 0x0A # ''```''"

definition matchJsonFence :: "string \<Rightarrow> string option" where
  "matchJsonFence text =
     (case findSub fenceOpen text of
        None \<Rightarrow> None
      | Some (before, rest) \<Rightarrow>
          (case findSub fenceClose rest of
             None \<Rightarrow> None
           | Some (inner, after) \<Rightarrow> Some inner))"

text \<open>
  \<open>text.match(/\{[\s\S]*\}/)\<close>: the quantifier is greedy, so the match runs from the first
  opening brace to the last closing brace after it.
\<close>

definition matchBraces :: "string \<Rightarrow> string option" where
  "matchBraces text =
     (case dropWhile (\<lambda>c. c \<noteq> CHR ''{'') text of
        [] \<Rightarrow> None
      | b # rest \<Rightarrow>
          (case rev (dropWhile (\<lambda>c. c \<noteq> CHR ''}'') (rev rest)) of
             [] \<Rightarrow> None
           | body \<Rightarrow> Some (b # body)))"

definition parseClaudeResponseWith :: "(string \<Rightarrow> json option) \<Rightarrow> string \<Rightarrow> js_error + json" where
  "parseClaudeResponseWith parse responseText =
     (case parse responseText of
        Some v \<Rightarrow> Inr v
      | None \<Rightarrow>
          (case matchJsonFence responseText of
             Some inner \<Rightarrow>
               (case parse inner of
                  Some v \<Rightarrow> Inr v
                | None \<Rightarrow> Inl (PlainError ''Failed to parse JSON from markdown block''))
           | None \<Rightarrow>
               (case matchBraces responseText of
                  Some obj \<Rightarrow>
                    (case parse obj of
                       Some v \<Rightarrow> Inr v
                     | None \<Rightarrow> Inl (PlainError ''Failed to parse extracted JSON object''))
                | None \<Rightarrow> Inl (PlainError ''No valid JSON found in response''))))"

definition parseClaudeResponse :: "string \<Rightarrow> js_error + json" where
  "parseClaudeResponse responseText = parseClaudeResponseWith JSON_parse responseText"





section \<open>Content analysis and its cache\<close>

text \<open>
  The result object of \<open>analyzeContent\<close>. The timestamp is the clock value of which the
  code takes the ISO text.
\<close>

record analysis_result =
  analysisId :: string
  contentType :: string
  extractedData :: "json option"
  confidence :: "json option"
  processingTime :: rat
  notes' :: json
  timestamp :: int

text \<open>
  The state of the service module: the client state, the map \<open>analysisCache\<close>, the pending
  \<open>setTimeout\<close> callbacks (the time each is due and the key it deletes), and the number of
  UUIDs drawn so far.
\<close>

record app_state = client_state +
  analysisCache :: "string \<rightharpoonup> analysis_result"
  timers :: "(int \<times> string) list"
  uuids :: nat

definition initialState :: "int \<Rightarrow> app_state" where
  "initialState t =
     \<lparr>now = t, api_calls = 0, requests = [], analysisCache = Map.empty, timers = [], uuids = 0\<rparr>"

text \<open>
  \<open>FRAMEWORKS[contentType]\<close> is truthy for the three own keys and, \<open>FRAMEWORKS\<close> being a plain
  object, for the property names it inherits from \<open>Object.prototype\<close>.
\<close>

definition frameworkKeys :: "string list" where
  "frameworkKeys = [''copywriting'', ''process'', ''technical'']"

definition objectPrototypeKeys :: "string list" where
  "objectPrototypeKeys =
     [''constructor'', ''__defineGetter__'', ''__defineSetter__'', ''hasOwnProperty'',
      ''__lookupGetter__'', ''__lookupSetter__'', ''isPrototypeOf'', ''propertyIsEnumerable'',
      ''toString'', ''valueOf'', ''__proto__'', ''toLocaleString'']"

definition hasFramework :: "string \<Rightarrow> bool" where
  "hasFramework t = (t \<in> set (frameworkKeys @ objectPrototypeKeys))"

definition getCacheKey :: "env \<Rightarrow> string \<Rightarrow> string \<Rightarrow> string" where
  "getCacheKey e content t = t @ '':'' @ md5hex e (content @ t)"

definition estimateTokens :: "string \<Rightarrow> nat" where
  \<comment> \<open>\<open>Math.ceil(text.length / 4)\<close>\<close>
  "estimateTokens text = (length text + 3) div 4"

definition shouldAnalyzeContent :: "string \<Rightarrow> bool" where
  "shouldAnalyzeContent content = (estimateTokens content \<le> 150000)"

definition ttlMs :: int where
  "ttlMs = 15 * 60 * 1000"

text \<open>The callbacks that are due run: each deletes its key from the cache.\<close>

definition runTimers :: "app_state \<Rightarrow> app_state" where
  "runTimers st =
     st\<lparr>analysisCache :=
          (\<lambda>k. if k \<in> snd ` set (filter (\<lambda>(due, key). due \<le> now st) (timers st)) then None
               else analysisCache st k),
        timers := filter (\<lambda>(due, key). \<not> due \<le> now st) (timers st)\<rparr>"

text \<open>
  The outer \<open>catch\<close> of \<open>analyzeContent\<close>: the three known classes pass, everything else is
  wrapped.
\<close>

fun rethrow :: "js_error \<Rightarrow> js_error" where
  "rethrow (AnalysisError m) = AnalysisError m"
| "rethrow (RateLimitError m r) = RateLimitError m r"
| "rethrow (ServiceError m r) = ServiceError m r"
| "rethrow error = AnalysisError (''Analysis failed: '' @ error_message error)"

definition notesOrEmpty :: "json option \<Rightarrow> json" where
  \<comment> \<open>\<open>validated.notes || ''\<close>\<close>
  "notesOrEmpty v = (case v of None \<Rightarrow> JStr [] | Some x \<Rightarrow> if truthy x then x else JStr [])"

text \<open>
  \<open>analyzeContent\<close>. The prompt only reaches the external service, whose answers the
  environment gives, so it is not built here. While the call of the service is awaited the
  clock moves and due callbacks run.
\<close>

definition analyzeContent ::
  "env \<Rightarrow> string \<Rightarrow> string \<Rightarrow> app_state \<Rightarrow> (js_error + analysis_result) \<times> app_state" where
  "analyzeContent e content t st =
     (if content = [] \<or> length content < 10
      then (Inl (AnalysisError ''Content too short for analysis''), st)
      else if 50000 < length content
      then (Inl (AnalysisError ''Content too long (max 50,000 characters)''), st)
      else if \<not> hasFramework t
      then (Inl (AnalysisError (''Unknown content type: '' @ t @
                   ''. Supported types: copywriting, process, technical'')), st)
      else
        (let cacheKey = getCacheKey e content t in
         case analysisCache st cacheKey of
           Some cached \<Rightarrow> (Inr cached, st)
         | None \<Rightarrow>
             if \<not> shouldAnalyzeContent content
             then (Inl (AnalysisError
                     ''Content too large for analysis. Consider breaking it into smaller chunks.''),
                   st)
             else
               (case callClaudeWithRateLimit e st of
                  (Inl error, st1) \<Rightarrow> (Inl (rethrow error), runTimers st1)
                | (Inr responseText, st1) \<Rightarrow>
                    (let st2 = runTimers st1 in
                     case parseClaudeResponse responseText of
                       Inl error \<Rightarrow> (Inl (rethrow error), st2)
                     | Inr parsed \<Rightarrow>
                         (case validateAnalysisResponse parsed of
                            Inl error \<Rightarrow> (Inl (rethrow error), st2)
                          | Inr validated \<Rightarrow>
                              (let result =
                                     \<lparr>analysisId = randomUUID e (uuids st2),
                                      contentType = t,
                                      extractedData = getProp validated ''extractedData'',
                                      confidence = getProp validated ''confidence'',
                                      processingTime = of_int (now st2 - now st) / 1000,
                                      notes' = notesOrEmpty (getProp validated ''notes''),
                                      timestamp = now st2\<rparr>
                               in (Inr result,
                                   st2\<lparr>analysisCache := (analysisCache st2)(cacheKey \<mapsto> result),
                                       timers := timers st2 @ [(now st2 + ttlMs, cacheKey)],
                                       uuids := Suc (uuids st2)\<rparr>)))))))"

text \<open>
  \<open>analyzeContent\<close> in its two parts. The first runs when the call is made, up to the \<open>await\<close>
  of \<open>callClaudeWithRateLimit\<close>: it returns at once, or goes on to the service with the cache
  key and the \<open>startTime\<close> it has taken. The second runs when the service call has returned,
  in the state of that moment.
\<close>

datatype started = Returned "js_error + analysis_result" | Awaiting string int

definition analyzeStart :: "env \<Rightarrow> string \<Rightarrow> string \<Rightarrow> app_state \<Rightarrow> started" where
  "analyzeStart e content t st =
     (if content = [] \<or> length content < 10
      then Returned (Inl (AnalysisError ''Content too short for analysis''))
      else if 50000 < length content
      then Returned (Inl (AnalysisError ''Content too long (max 50,000 characters)''))
      else if \<not> hasFramework t
      then Returned (Inl (AnalysisError (''Unknown content type: '' @ t @
                   ''. Supported types: copywriting, process, technical'')))
      else
        (let cacheKey = getCacheKey e content t in
         case analysisCache st cacheKey of
           Some cached \<Rightarrow> Returned (Inr cached)
         | None \<Rightarrow>
             if \<not> shouldAnalyzeContent content
             then Returned (Inl (AnalysisError
                     ''Content too large for analysis. Consider breaking it into smaller chunks.''))
             else Awaiting cacheKey (now st)))"

definition analyzeResume ::
  "env \<Rightarrow> string \<Rightarrow> string \<Rightarrow> int \<Rightarrow> js_error + string \<Rightarrow> app_state \<Rightarrow>
   (js_error + analysis_result) \<times> app_state" where
  "analyzeResume e t cacheKey startTime answer st2 =
     (case answer of
        Inl error \<Rightarrow> (Inl (rethrow error), st2)
      | Inr responseText \<Rightarrow>
          (case parseClaudeResponse responseText of
             Inl error \<Rightarrow> (Inl (rethrow error), st2)
           | Inr parsed \<Rightarrow>
               (case validateAnalysisResponse parsed of
                  Inl error \<Rightarrow> (Inl (rethrow error), st2)
                | Inr validated \<Rightarrow>
                    (let result =
                           \<lparr>analysisId = randomUUID e (uuids st2),
                            contentType = t,
                            extractedData = getProp validated ''extractedData'',
                            confidence = getProp validated ''confidence'',
                            processingTime = of_int (now st2 - startTime) / 1000,
                            notes' = notesOrEmpty (getProp validated ''notes''),
                            timestamp = now st2\<rparr>
                     in (Inr result,
                         st2\<lparr>analysisCache := (analysisCache st2)(cacheKey \<mapsto> result),
                             timers := timers st2 @ [(now st2 + ttlMs, cacheKey)],
                             uuids := Suc (uuids st2)\<rparr>)))))"

text \<open>
  Two calls with the same content and content type that overlap: the first is made in the
  state \<open>st\<close> and awaits the service, the second is made \<open>d\<close> milliseconds later, while the
  first still awaits (there is no such run, \<open>None\<close>, when the first call returns at once or
  its service call has returned by then). Each call takes the counter of service calls and
  the ledger as a whole, in the order the calls are made; each resumes at the time its own
  service call returns, after the callbacks due by then, the earlier return first.
\<close>

definition resumeAt ::
  "env \<Rightarrow> string \<Rightarrow> string \<Rightarrow> int \<Rightarrow> js_error + string \<Rightarrow> int \<Rightarrow> app_state \<Rightarrow>
   (js_error + analysis_result) \<times> app_state" where
  "resumeAt e t cacheKey startTime answer time st =
     analyzeResume e t cacheKey startTime answer (runTimers (st\<lparr>now := time\<rparr>))"

definition analyzeOverlapped ::
  "env \<Rightarrow> string \<Rightarrow> string \<Rightarrow> nat \<Rightarrow> app_state \<Rightarrow>
   (((js_error + analysis_result) \<times> (js_error + analysis_result)) \<times> app_state) option" where
  "analyzeOverlapped e content t d st =
     (case analyzeStart e content t st of
        Returned outcome \<Rightarrow> None
      | Awaiting key1 start1 \<Rightarrow>
          (case callClaudeWithRateLimit e st of
             (answer1, st1) \<Rightarrow>
               if now st1 \<le> now st + int d then None
               else
                 (let arrival = runTimers (st1\<lparr>now := now st + int d\<rparr>) in
                  case analyzeStart e content t arrival of
                    Returned outcome2 \<Rightarrow>
                      (case resumeAt e t key1 start1 answer1 (now st1) arrival of
                         (outcome1, st') \<Rightarrow> Some ((outcome1, outcome2), st'))
                  | Awaiting key2 start2 \<Rightarrow>
                      (case callClaudeWithRateLimit e arrival of
                         (answer2, st2) \<Rightarrow>
                           if now st1 \<le> now st2
                           then
                             (case resumeAt e t key1 start1 answer1 (now st1) st2 of
                                (outcome1, sa) \<Rightarrow>
                                  (case resumeAt e t key2 start2 answer2 (now st2) sa of
                                     (outcome2, sb) \<Rightarrow> Some ((outcome1, outcome2), sb)))
                           else
                             (case resumeAt e t key2 start2 answer2 (now st2) st2 of
                                (outcome2, sa) \<Rightarrow>
                                  (case resumeAt e t key1 start1 answer1 (now st1) sa of
                                     (outcome1, sb) \<Rightarrow> Some ((outcome1, outcome2), sb)))))))"

text \<open>
  The route \<open>POST /api/analyze\<close>: the schema check of the body, then the service. The
  details of a validation failure are left out of the response.
\<close>

datatype analyze_response =
    Ok200 analysis_result
  | ValidationFailed400
  | RateLimitExceeded429 retry_after string
  | AnalysisFailed400 string
  | AnalysisFailed500 string bool

definition AnalyzeRequestSchema :: "json \<Rightarrow> (string \<times> string) option" where
  "AnalyzeRequestSchema body =
     (case (getProp body ''content'', getProp body ''contentType'') of
        (Some (JStr content), Some (JStr t)) \<Rightarrow>
          if 10 \<le> length content \<and> length content \<le> 50000 \<and> t \<in> set frameworkKeys
          then Some (content, t) else None
      | _ \<Rightarrow> None)"

definition errorResponse :: "js_error \<Rightarrow> analyze_response" where
  "errorResponse error =
     (if error_code error = Some ''RATE_LIMIT''
      then RateLimitExceeded429
             (case error of RateLimitError m r \<Rightarrow> r | _ \<Rightarrow> DefaultSeconds) (error_message error)
      else if error_code error = Some ''ANALYSIS_ERROR''
      then AnalysisFailed400 (error_message error)
      else AnalysisFailed500 (error_message error) (retryable error))"

definition postAnalyze :: "env \<Rightarrow> json \<Rightarrow> app_state \<Rightarrow> analyze_response \<times> app_state" where
  "postAnalyze e body st =
     (case AnalyzeRequestSchema body of
        None \<Rightarrow> (ValidationFailed400, st)
      | Some (content, t) \<Rightarrow>
          (case analyzeContent e content t st of
             (Inr analysis, st') \<Rightarrow> (Ok200 analysis, st')
           | (Inl error, st') \<Rightarrow> (errorResponse error, st')))"

text \<open>What happens to the service module: time passes, or a content is analysed.\<close>

datatype event = Tick nat | Analyze string string

fun step :: "env \<Rightarrow> event \<Rightarrow> app_state \<Rightarrow> app_state" where
  "step e (Tick d) st = runTimers (st\<lparr>now := now st + int d\<rparr>)"
| "step e (Analyze content t) st = snd (analyzeContent e content t st)"

definition run :: "env \<Rightarrow> event list \<Rightarrow> app_state \<Rightarrow> app_state" where
  "run e evs st = fold (step e) evs st"

text \<open>
  Every pending callback is due in the future, the cached keys are those with a pending
  callback, and no key has two.
\<close>

definition cacheInv :: "app_state \<Rightarrow> bool" where
  "cacheInv st =
     ((\<forall>(due, key) \<in> set (timers st). now st < due) \<and>
      (\<forall>key. (analysisCache st key \<noteq> None) = (key \<in> snd ` set (timers st))) \<and>
      distinct (map snd (timers st)))"


text \<open>
  A script of the external service for concrete runs: every call takes 250 ms and is
  answered with the given text. The sample answer is a well-formed analysis.
\<close>

definition answering :: "string \<Rightarrow> env" where
  "answering answer =
     \<lparr>service = (\<lambda>n. (250, Responded answer)),
      md5hex = (\<lambda>s. s),
      randomUUID = (\<lambda>n. ''00000000-0000-4000-8000-000000000000'')\<rparr>"

definition sampleAnswer :: string where
  \<open>sampleAnswer = ''{"extractedData":{"workflow":{"steps":[]}},"confidence":0.5}''\<close>

definition sampleResult :: analysis_result where
  "sampleResult =
     \<lparr>analysisId = ''00000000-0000-4000-8000-000000000000'',
      contentType = ''process'',
      extractedData = Some (JObj [(''workflow'', JObj [(''steps'', JArr [])])]),
      confidence = Some (JNum (Finite (1/2))),
      processingTime = 1/4,
      notes' = JStr [],
      timestamp = 250\<rparr>"


text \<open>
  A script of the external service for concrete runs: every call takes 250 ms, the first
  calls have the given outcomes and the later ones are answered with the sample answer.
\<close>

definition scripted :: "api_outcome list \<Rightarrow> env" where
  "scripted outcomes =
     \<lparr>service = (\<lambda>n. (250, if n < length outcomes then outcomes ! n
                           else Responded sampleAnswer)),
      md5hex = (\<lambda>s. s),
      randomUUID = (\<lambda>n. ''00000000-0000-4000-8000-000000000000'')\<rparr>"


section \<open>The store\<close>

text \<open>
  The tables \<open>skills\<close> and \<open>skill_versions\<close> of the schema. The JSON column \<open>references\<close> is
  given by the object it encodes (file name and content), the JSON column \<open>metadata\<close> by its
  value. A version is a natural number: the 64-bit range of the column is out of reach of
  a counter that grows by one per update. The tables \<open>skill_usage\<close> and \<open>content_analyses\<close>
  are written by no code and are left out.
\<close>

record skill_row =
  row_id :: nat
  row_name :: string
  row_description :: string
  row_skill_type :: string
  row_version :: nat
  row_main_content :: string
  row_references :: "(string \<times> string) list"
  row_metadata :: json
  row_created_at :: int
  row_updated_at :: int

record skill_version_row =
  ver_id :: nat
  ver_skill_id :: nat
  ver_version :: nat
  ver_main_content :: string
  ver_references :: "(string \<times> string) list"
  ver_metadata :: json
  ver_created_at :: int

text \<open>
  The database: the two tables, the \<open>AUTOINCREMENT\<close> counters (the largest row id ever
  given out in each table), and the connection's \<open>foreign_keys\<close> pragma, which decides
  whether \<open>ON DELETE CASCADE\<close> is in force. The module that opens the connection is not
  among the sources, so the pragma is a parameter.
\<close>

record database =
  skills :: "skill_row list"
  skill_versions :: "skill_version_row list"
  skills_seq :: nat
  skill_versions_seq :: nat
  foreign_keys :: bool

definition emptyDatabase :: "bool \<Rightarrow> database" where
  "emptyDatabase fk =
     \<lparr>skills = [], skill_versions = [], skills_seq = 0, skill_versions_seq = 0,
      foreign_keys = fk\<rparr>"

definition selectSkill :: "database \<Rightarrow> nat \<Rightarrow> skill_row option" where
  \<comment> \<open>\<open>SELECT ... FROM skills WHERE id = ?\<close>\<close>
  "selectSkill db i = find (\<lambda>row. row_id row = i) (skills db)"

definition snapshotsOf :: "database \<Rightarrow> nat \<Rightarrow> skill_version_row list" where
  \<comment> \<open>the rows of \<open>skill_versions\<close> of one skill, in insertion order\<close>
  "snapshotsOf db i = filter (\<lambda>v. ver_skill_id v = i) (skill_versions db)"

section \<open>Generating a skill\<close>

text \<open>
  What the skill generation takes from libraries: \<open>Handlebars.compile(template)(data)\<close>,
  with the template given by its place in \<open>TEMPLATES\<close>, and the text a template literal
  makes of a value.
\<close>

record runtime =
  handlebars :: "string \<Rightarrow> json \<Rightarrow> string"
  toStringJs :: "json \<Rightarrow> string"

definition templateTypes :: "string list" where
  \<comment> \<open>\<open>Object.keys(TEMPLATES)\<close>\<close>
  "templateTypes = [''copywriting'', ''process'', ''technical'']"

definition validateSkillName :: "database \<Rightarrow> string \<Rightarrow> js_error + unit" where
  "validateSkillName db name =
     (if name = [] \<or> length name < 3
      then Inl (PlainError ''Skill name must be at least 3 characters'')
      else if 50 < length name
      then Inl (PlainError ''Skill name must be less than 50 characters'')
      else if \<not> isSlug (formatSkillName name)
      then Inl (PlainError
             ''Skill name must contain only lowercase letters, numbers, and hyphens'')
      else if list_ex (\<lambda>row. row_name row = formatSkillName name) (skills db)
      then Inl (PlainError ''Skill with this name already exists'')
      else Inr ())"

definition validateSkillType :: "string \<Rightarrow> js_error + unit" where
  "validateSkillType skillType =
     (if skillType \<in> set templateTypes then Inr ()
      else Inl (PlainError (''Invalid skill type: '' @ skillType @
                  ''. Valid types: copywriting, process, technical'')))"

text \<open>
  The object \<open>skillFiles\<close>: its properties with a text as value (such as \<open>skill.md\<close>), and
  its property \<open>references\<close>.
\<close>

record skill_files =
  sf_texts :: "(string \<times> string) list"
  sf_references :: "(string \<times> string) list option"

text \<open>
  \<open>generateSkillFiles\<close>. Each of the three template sets has the main template and the
  three reference templates. The function is reached only with a validated skill type.
\<close>

definition generateSkillFiles :: "runtime \<Rightarrow> string \<Rightarrow> json \<Rightarrow> js_error + skill_files" where
  "generateSkillFiles rt skillType templateData =
     (if skillType \<notin> set templateTypes
      then Inl (PlainError (''No template found for skill type: '' @ skillType))
      else Inr \<lparr>sf_texts = [(''skill.md'', handlebars rt (skillType @ ''.skillMd'') templateData)],
                sf_references = Some
                  [(''practices.md'', handlebars rt (skillType @ ''.practicesMd'') templateData),
                   (''structure.md'', handlebars rt (skillType @ ''.structureMd'') templateData),
                   (''examples.md'', handlebars rt (skillType @ ''.examplesMd'') templateData)]\<rparr>)"

definition getPath :: "json \<Rightarrow> string list \<Rightarrow> json option" where
  \<comment> \<open>\<open>data.a?.b?.c\<close>\<close>
  "getPath v path = fold (\<lambda>k acc. case acc of None \<Rightarrow> None | Some x \<Rightarrow> getProp x k) path (Some v)"

fun firstOf :: "json \<Rightarrow> json option" where
  \<comment> \<open>\<open>v[0]\<close>\<close>
  "firstOf (JArr (x # xs)) = Some x"
| "firstOf (JStr (c # cs)) = Some (JStr [c])"
| "firstOf (JObj kvs) = map_of kvs ''0''"
| "firstOf _ = None"

definition orElse :: "runtime \<Rightarrow> json option \<Rightarrow> string \<Rightarrow> string" where
  \<comment> \<open>\<open>${v || 'default'}\<close>\<close>
  "orElse rt v d = (case v of None \<Rightarrow> d | Some x \<Rightarrow> if truthy x then toStringJs rt x else d)"

definition dataProp :: "json option \<Rightarrow> string \<Rightarrow> js_error + json" where
  \<comment> \<open>\<open>data.key\<close>, a \<open>TypeError\<close> when \<open>data\<close> is \<open>undefined\<close> or \<open>null\<close>\<close>
  "dataProp data k =
     (case data of
        None \<Rightarrow>
          Inl (PlainError (''Cannot read properties of undefined (reading '' @ [CHR 0x27] @ k @
                           [CHR 0x27] @ '')''))
      | Some JNull \<Rightarrow>
          Inl (PlainError (''Cannot read properties of null (reading '' @ [CHR 0x27] @ k @
                           [CHR 0x27] @ '')''))
      | Some x \<Rightarrow> Inr (case getProp x k of None \<Rightarrow> JNull | Some y \<Rightarrow> y))"

text \<open>
  \<open>generateDescription\<close>. Below the first property an absent value and \<open>null\<close> behave alike
  (\<open>?.\<close> and \<open>||\<close>), so \<open>dataProp\<close> gives \<open>null\<close> for both.
\<close>

definition generateDescription :: "runtime \<Rightarrow> json \<Rightarrow> string \<Rightarrow> js_error + string" where
  "generateDescription rt analysisData skillType =
     (let data = getProp analysisData ''extractedData'' in
      if skillType = ''copywriting'' then
        (case dataProp data ''style'' of
           Inl err \<Rightarrow> Inl err
         | Inr style \<Rightarrow>
             (case dataProp data ''structure'' of
                Inl err \<Rightarrow> Inl err
              | Inr structure \<Rightarrow>
                  Inr (''Generates '' @ orElse rt (getProp style ''toneVoice'') ''effective'' @
                       '' copy using the '' @
                       orElse rt (getProp structure ''narrativeFlow'') ''proven'' @
                       '' framework'')))
      else if skillType = ''process'' then
        (case dataProp data ''workflow'' of
           Inl err \<Rightarrow> Inl err
         | Inr workflow \<Rightarrow>
             Inr (''Structured workflow for '' @
                  orElse rt (case getPath workflow [''steps''] of
                               None \<Rightarrow> None
                             | Some steps \<Rightarrow>
                                 (case firstOf steps of
                                    None \<Rightarrow> None
                                  | Some s \<Rightarrow> getProp s ''name''))
                    ''process execution''))
      else if skillType = ''technical'' then
        (case dataProp data ''concepts'' of
           Inl err \<Rightarrow> Inl err
         | Inr concepts \<Rightarrow>
             Inr (''Technical guide for '' @
                  orElse rt (case getPath concepts [''mainConcepts''] of
                               None \<Rightarrow> None
                             | Some cs \<Rightarrow> firstOf cs)
                    ''implementation''))
      else Inr (''Claude skill for '' @ skillType @ '' tasks''))"

definition byteLength :: "string \<Rightarrow> nat" where
  \<comment> \<open>\<open>Buffer.byteLength(s, 'utf8')\<close> for code units below 256\<close>
  "byteLength s = sum_list (map (\<lambda>c. if (of_char c :: nat) < 128 then 1 else 2) s)"

definition calculateTotalSize :: "skill_files \<Rightarrow> nat" where
  "calculateTotalSize skillFiles =
     (case map_of (sf_texts skillFiles) ''skill.md'' of None \<Rightarrow> 0 | Some s \<Rightarrow> byteLength s) +
     sum_list (map (\<lambda>(filename, content). byteLength content)
                 (case sf_references skillFiles of None \<Rightarrow> [] | Some refs \<Rightarrow> refs))"

definition definedProps :: "(string \<times> json option) list \<Rightarrow> json" where
  \<comment> \<open>an object literal as \<open>JSON.stringify\<close> keeps it: without the undefined properties\<close>
  "definedProps kvs =
     JObj (concat (map (\<lambda>(k, v). case v of None \<Rightarrow> [] | Some x \<Rightarrow> [(k, x)]) kvs))"


section \<open>The archive\<close>

text \<open>
  The JSZip object, by the entries it holds in insertion order. The byte encoding of the
  archive and the DEFLATE codec belong to the library and are not modelled: an archive is
  the list of its entries, each with its name, its content and the compression method it is
  written with, and unpacking reads that list.
\<close>

datatype compression = STORE | DEFLATE nat

record zip_entry =
  entry_data :: string
  entry_dir :: bool
  entry_compression :: "compression option"

type_synonym zip = "(string \<times> zip_entry) list"

text \<open>
  \<open>zip.folder(name)\<close> adds the folder entry unless it is there. (For a file name that holds
  further slashes JSZip also adds the folders in between; these entries hold no data and are
  left out.)
\<close>

definition zipFolder :: "zip \<Rightarrow> string \<Rightarrow> zip" where
  "zipFolder z name =
     (if map_of z (name @ ''/'') \<noteq> None then z
      else AList.update (name @ ''/'')
             \<lparr>entry_data = [], entry_dir = True, entry_compression = Some STORE\<rparr> z)"

text \<open>
  \<open>zip.file(name, data)\<close>: missing or empty data gives an empty entry that is stored, not
  compressed; otherwise the entry takes the compression chosen when the archive is generated.
\<close>

definition zipFile :: "zip \<Rightarrow> string \<Rightarrow> string option \<Rightarrow> zip" where
  "zipFile z name data =
     AList.update name
       (case data of
          None \<Rightarrow> \<lparr>entry_data = [], entry_dir = False, entry_compression = Some STORE\<rparr>
        | Some d \<Rightarrow>
            if d = [] then \<lparr>entry_data = [], entry_dir = False, entry_compression = Some STORE\<rparr>
            else \<lparr>entry_data = d, entry_dir = False, entry_compression = None\<rparr>)
       z"

definition generateArchive :: "compression \<Rightarrow> zip \<Rightarrow> zip" where
  \<comment> \<open>\<open>generateAsync\<close>: an entry without a compression of its own takes the given one\<close>
  "generateArchive c z =
     map (\<lambda>(name, entry).
            (name, case entry_compression entry of
                     None \<Rightarrow> entry\<lparr>entry_compression := Some c\<rparr>
                   | Some own \<Rightarrow> entry)) z"

definition createSkillZip :: "skill_files \<Rightarrow> string \<Rightarrow> zip" where
  "createSkillZip skillFiles skillName =
     (let zip = zipFile [] ''skill.md'' (map_of (sf_texts skillFiles) ''skill.md'');
          zip' = (case sf_references skillFiles of
                    None \<Rightarrow> zip
                  | Some refs \<Rightarrow>
                      if refs = [] then zip
                      else fold (\<lambda>(filename, content) z.
                                   zipFile z (''references/'' @ filename) (Some content))
                             refs (zipFolder zip ''references''))
      in generateArchive (DEFLATE 9) zip')"

text \<open>Unpacking: the files of the archive with their contents.\<close>

definition unpack :: "zip \<Rightarrow> (string \<times> string) list" where
  "unpack z = map (\<lambda>(name, entry). (name, entry_data entry)) (filter (\<lambda>(name, entry). \<not> entry_dir entry) z)"


section \<open>Creating, updating, deleting and downloading skills\<close>

text \<open>
  \<open>saveSkillToDatabase\<close>: the \<open>INSERT INTO skills\<close>, with the constraints of the schema that
  the statement can violate. The new row gets the next id of the \<open>AUTOINCREMENT\<close> counter.
\<close>

definition saveSkillToDatabase ::
  "database \<Rightarrow> string \<Rightarrow> string \<Rightarrow> string \<Rightarrow> nat \<Rightarrow> string \<Rightarrow> (string \<times> string) list \<Rightarrow>
   json \<Rightarrow> int \<Rightarrow> js_error + nat \<times> database" where
  "saveSkillToDatabase db name description skillType version mainContent refs metadata t =
     (if list_ex (\<lambda>row. row_name row = name) (skills db)
      then Inl (PlainError ''UNIQUE constraint failed: skills.name'')
      else if skillType \<notin> set [''copywriting'', ''process'', ''technical'']
      then Inl (PlainError ''CHECK constraint failed: skill_type'')
      else Inr (Suc (skills_seq db),
                db\<lparr>skills := skills db @
                      [\<lparr>row_id = Suc (skills_seq db), row_name = name,
                        row_description = description, row_skill_type = skillType,
                        row_version = version, row_main_content = mainContent,
                        row_references = refs, row_metadata = metadata,
                        row_created_at = t, row_updated_at = t\<rparr>],
                    skills_seq := Suc (skills_seq db)\<rparr>))"

text \<open>The package \<open>generateSkill\<close> returns (its \<open>downloadUrl\<close>, the id in a path, is left out).\<close>

record skill_package =
  pk_skillId :: nat
  pk_skillName :: string
  pk_version :: nat
  pk_files :: skill_files
  pk_metadata :: json
  pk_zipBuffer :: zip
  pk_createdAt :: int

definition skillMetadata :: "string list option \<Rightarrow> skill_files \<Rightarrow> json \<Rightarrow> json" where
  "skillMetadata tags skillFiles analysisData =
     JObj [(''tags'', JArr (map JStr (case tags of None \<Rightarrow> [] | Some ts \<Rightarrow> ts))),
           (''fileCount'', JNum (Finite (of_nat
              (1 + length (case sf_references skillFiles of None \<Rightarrow> [] | Some refs \<Rightarrow> refs))))),
           (''totalSize'', JNum (Finite (of_nat (calculateTotalSize skillFiles)))),
           (''extractedFrom'', definedProps
              [(''analysisId'', getProp analysisData ''analysisId''),
               (''contentType'', getProp analysisData ''contentType''),
               (''analysisDate'', getProp analysisData ''timestamp''),
               (''confidence'', getProp analysisData ''confidence'')])]"

definition wrapGenerationError :: "js_error \<Rightarrow> js_error" where
  "wrapGenerationError error = PlainError (''Skill generation failed: '' @ error_message error)"

text \<open>
  \<open>generateSkill\<close>, from the validation of the name to the archive. Every error is caught
  and thrown again with the prefix \<open>Skill generation failed\<close>.
\<close>

definition generateSkill ::
  "runtime \<Rightarrow> database \<Rightarrow> json \<Rightarrow> string \<Rightarrow> string \<Rightarrow> string option \<Rightarrow> string list option \<Rightarrow>
   int \<Rightarrow> (js_error + skill_package) \<times> database" where
  "generateSkill rt db analysisData skillName skillType description tags t =
     (case validateSkillName db skillName of
        Inl error \<Rightarrow> (Inl (wrapGenerationError error), db)
      | Inr _ \<Rightarrow>
     (case validateSkillType skillType of
        Inl error \<Rightarrow> (Inl (wrapGenerationError error), db)
      | Inr _ \<Rightarrow>
     (if \<not> truthy analysisData \<or> \<not> truthy_opt (getProp analysisData ''extractedData'')
      then (Inl (wrapGenerationError (PlainError ''Invalid analysis data provided'')), db)
      else
     (case (case description of
              None \<Rightarrow> generateDescription rt analysisData skillType
            | Some d \<Rightarrow> if d = [] then generateDescription rt analysisData skillType else Inr d) of
        Inl error \<Rightarrow> (Inl (wrapGenerationError error), db)
      | Inr description' \<Rightarrow>
     (case generateSkillFiles rt skillType
             (definedProps
                [(''skillName'', Some (JStr (formatSkillName skillName))),
                 (''description'', Some (JStr description')),
                 (''extractedData'', getProp analysisData ''extractedData''),
                 (''contentType'', Some (JStr skillType))]) of
        Inl error \<Rightarrow> (Inl (wrapGenerationError error), db)
      | Inr skillFiles \<Rightarrow>
     (case map_of (sf_texts skillFiles) ''skill.md'' of
        None \<Rightarrow> (Inl (wrapGenerationError (PlainError ''NOT NULL constraint failed: skills.main_content'')), db)
      | Some mainContent \<Rightarrow>
     (case saveSkillToDatabase db (formatSkillName skillName) description' skillType 1
             mainContent (case sf_references skillFiles of None \<Rightarrow> [] | Some refs \<Rightarrow> refs)
             (skillMetadata tags skillFiles analysisData) t of
        Inl error \<Rightarrow> (Inl (wrapGenerationError error), db)
      | Inr (skillId, db') \<Rightarrow>
          (Inr \<lparr>pk_skillId = skillId,
                 pk_skillName = formatSkillName skillName,
                 pk_version = 1,
                 pk_files = skillFiles,
                 pk_metadata = skillMetadata tags skillFiles analysisData,
                 pk_zipBuffer = createSkillZip skillFiles (formatSkillName skillName),
                 pk_createdAt = t\<rparr>, db'))))))))"

text \<open>
  The body of \<open>PUT /api/skills/:id\<close> after \<open>UpdateSkillRequestSchema.parse\<close>. Each field is
  optional; a present field must have its type and length, or the schema fails.
\<close>

record update_request =
  req_name :: "string option"
  req_description :: "string option"
  req_mainContent :: "string option"
  req_references :: "(string \<times> string) list option"
  req_tags :: "string list option"

definition optionalString :: "json option \<Rightarrow> (string \<Rightarrow> bool) \<Rightarrow> string option option" where
  \<comment> \<open>\<open>None\<close>: the schema fails; \<open>Some None\<close>: the field is absent\<close>
  "optionalString v ok =
     (case v of
        None \<Rightarrow> Some None
      | Some (JStr s) \<Rightarrow> if ok s then Some (Some s) else None
      | Some _ \<Rightarrow> None)"

fun stringOf :: "json \<Rightarrow> string option" where
  "stringOf (JStr s) = Some s"
| "stringOf _ = None"

definition optionalRecord :: "json option \<Rightarrow> (string \<times> string) list option option" where
  "optionalRecord v =
     (case v of
        None \<Rightarrow> Some None
      | Some (JObj kvs) \<Rightarrow>
          (case those (map (\<lambda>(k, x). map_option (Pair k) (stringOf x)) kvs) of
             None \<Rightarrow> None
           | Some r \<Rightarrow> Some (Some r))
      | Some _ \<Rightarrow> None)"

definition optionalStrings :: "json option \<Rightarrow> string list option option" where
  "optionalStrings v =
     (case v of
        None \<Rightarrow> Some None
      | Some (JArr xs) \<Rightarrow>
          (case those (map stringOf xs) of None \<Rightarrow> None | Some r \<Rightarrow> Some (Some r))
      | Some _ \<Rightarrow> None)"

definition UpdateSkillRequestSchema :: "json \<Rightarrow> update_request option" where
  "UpdateSkillRequestSchema body =
     (case body of
        JObj kvs \<Rightarrow>
          (case (optionalString (map_of kvs ''name'') (\<lambda>s. 3 \<le> length s \<and> length s \<le> 50),
                 optionalString (map_of kvs ''description'') (\<lambda>s. True),
                 optionalString (map_of kvs ''mainContent'') (\<lambda>s. 100 \<le> length s),
                 optionalRecord (map_of kvs ''references''),
                 optionalStrings (map_of kvs ''tags'')) of
             (Some n, Some d, Some m, Some r, Some ts) \<Rightarrow>
               Some \<lparr>req_name = n, req_description = d, req_mainContent = m,
                      req_references = r, req_tags = ts\<rparr>
           | _ \<Rightarrow> None)
      | _ \<Rightarrow> None)"


definition truthyString :: "string option \<Rightarrow> bool" where
  \<comment> \<open>\<open>if (validatedData.field)\<close> for a field that is a text or absent\<close>
  "truthyString v = (case v of None \<Rightarrow> False | Some s \<Rightarrow> s \<noteq> [])"

text \<open>
  The transaction \<open>updateSkill\<close> of the route: the current row is copied to
  \<open>skill_versions\<close>, the fields whose value is truthy are applied, the version grows by one.
  An error of a statement rolls everything back, so the result is an error or the new
  database.
\<close>

definition updateSkill ::
  "database \<Rightarrow> nat \<Rightarrow> update_request \<Rightarrow> int \<Rightarrow> js_error + nat \<times> database" where
  "updateSkill db skillId validatedData t =
     (case selectSkill db skillId of
        None \<Rightarrow> Inl (PlainError ''Cannot read properties of undefined (reading 'version')'')
      | Some currentSkill \<Rightarrow>
          if list_ex (\<lambda>v. ver_skill_id v = skillId \<and> ver_version v = row_version currentSkill)
               (skill_versions db)
          then Inl (PlainError
                 ''UNIQUE constraint failed: skill_versions.skill_id, skill_versions.version'')
          else if truthyString (req_name validatedData) \<and>
                  list_ex (\<lambda>row. row_id row \<noteq> skillId \<and>
                                  Some (row_name row) = req_name validatedData) (skills db)
          then Inl (PlainError ''UNIQUE constraint failed: skills.name'')
          else
            Inr (Suc (row_version currentSkill),
                 db\<lparr>skill_versions := skill_versions db @
                       [\<lparr>ver_id = Suc (skill_versions_seq db), ver_skill_id = skillId,
                         ver_version = row_version currentSkill,
                         ver_main_content = row_main_content currentSkill,
                         ver_references = row_references currentSkill,
                         ver_metadata = row_metadata currentSkill,
                         ver_created_at = t\<rparr>],
                     skill_versions_seq := Suc (skill_versions_seq db),
                     skills := map (\<lambda>row.
                       if row_id row \<noteq> skillId then row
                       else row\<lparr>row_name :=
                                  (case req_name validatedData of
                                     None \<Rightarrow> row_name row
                                   | Some n \<Rightarrow> if n = [] then row_name row else n),
                                row_description :=
                                  (case req_description validatedData of
                                     None \<Rightarrow> row_description row
                                   | Some d \<Rightarrow> if d = [] then row_description row else d),
                                row_main_content :=
                                  (case req_mainContent validatedData of
                                     None \<Rightarrow> row_main_content row
                                   | Some m \<Rightarrow> if m = [] then row_main_content row else m),
                                row_references :=
                                  (case req_references validatedData of
                                     None \<Rightarrow> row_references row
                                   | Some r \<Rightarrow> r),
                                row_metadata :=
                                  (case req_tags validatedData of
                                     None \<Rightarrow> row_metadata row
                                   | Some ts \<Rightarrow>
                                       setProp (row_metadata currentSkill) ''tags''
                                         (JArr (map JStr ts))),
                                row_version := Suc (row_version row),
                                row_updated_at := t\<rparr>) (skills db)\<rparr>))"

text \<open>The answers of the routes on a skill; \<open>parseInt(req.params.id)\<close> is \<open>None\<close> when \<open>NaN\<close>.\<close>

datatype 'a reply =
    Reply200 'a
  | InvalidSkillId400
  | BodyInvalid400
  | Unauthorized401
  | SkillNotFound404
  | Failed500 string

definition putSkill ::
  "database \<Rightarrow> nat option \<Rightarrow> json \<Rightarrow> int \<Rightarrow> (nat \<times> nat) reply \<times> database" where
  "putSkill db skillId body t =
     (case skillId of
        None \<Rightarrow> (InvalidSkillId400, db)
      | Some i \<Rightarrow>
          (case UpdateSkillRequestSchema body of
             None \<Rightarrow> (BodyInvalid400, db)
           | Some validatedData \<Rightarrow>
               (case selectSkill db i of
                  None \<Rightarrow> (SkillNotFound404, db)
                | Some existingSkill \<Rightarrow>
                    (case updateSkill db i validatedData t of
                       Inl error \<Rightarrow> (Failed500 (error_message error), db)
                     | Inr (version, db') \<Rightarrow> (Reply200 (i, version), db')))))"

definition deleteSkill :: "database \<Rightarrow> nat option \<Rightarrow> (nat \<times> string) reply \<times> database" where
  "deleteSkill db skillId =
     (case skillId of
        None \<Rightarrow> (InvalidSkillId400, db)
      | Some i \<Rightarrow>
          (case selectSkill db i of
             None \<Rightarrow> (SkillNotFound404, db)
           | Some skill \<Rightarrow>
               (Reply200 (i, row_name skill),
                db\<lparr>skills := filter (\<lambda>row. row_id row \<noteq> i) (skills db),
                    skill_versions :=
                      (if foreign_keys db
                       then filter (\<lambda>v. ver_skill_id v \<noteq> i) (skill_versions db)
                       else skill_versions db)\<rparr>)))"

text \<open>
  \<open>GET /api/skills/:id/download\<close>, as the module has it since the publishing route was added:
  the stored main document goes into \<open>skillFiles\<close> under the key \<open>SKILL.md\<close>.
\<close>

definition downloadSkill :: "database \<Rightarrow> nat option \<Rightarrow> (string \<times> zip) reply" where
  "downloadSkill db skillId =
     (case skillId of
        None \<Rightarrow> InvalidSkillId400
      | Some i \<Rightarrow>
          (case selectSkill db i of
             None \<Rightarrow> SkillNotFound404
           | Some skill \<Rightarrow>
               Reply200 (row_name skill @ ''.zip'',
                         createSkillZip
                           \<lparr>sf_texts = [(''SKILL.md'', row_main_content skill)],
                            sf_references = Some (row_references skill)\<rparr>
                           (row_name skill))))"

text \<open>
  \<open>POST /api/skills/:id/publish\<close>, on the store. Publishing itself happens at the code host;
  its outcome is given. A failure is answered 409, 401 or 500 by the text of its message,
  which is reduced to one answer here. On success the repository data goes into the
  metadata.
\<close>

definition publishSkill ::
  "database \<Rightarrow> nat option \<Rightarrow> string option \<Rightarrow> js_error + json \<Rightarrow> int \<Rightarrow> json reply \<times> database" where
  "publishSkill db skillId githubToken outcome t =
     (case skillId of
        None \<Rightarrow> (InvalidSkillId400, db)
      | Some i \<Rightarrow>
          if \<not> truthyString githubToken then (Unauthorized401, db)
          else
            (case selectSkill db i of
               None \<Rightarrow> (SkillNotFound404, db)
             | Some skill \<Rightarrow>
                 (case outcome of
                    Inl error \<Rightarrow> (Failed500 (error_message error), db)
                  | Inr publishResult \<Rightarrow>
                      (Reply200 publishResult,
                       db\<lparr>skills := map (\<lambda>row.
                            if row_id row \<noteq> i then row
                            else row\<lparr>row_metadata :=
                                       setProp (row_metadata skill) ''github'' publishResult,
                                     row_updated_at := t\<rparr>) (skills db)\<rparr>))))"

text \<open>The requests that write the store, each with the time it is served at.\<close>

datatype store_request =
    GenerateSkill json string string "string option" "string list option"
  | PutSkill "nat option" json
  | DeleteSkill "nat option"
  | PublishSkill "nat option" "string option" "js_error + json"

fun serve :: "runtime \<Rightarrow> int \<times> store_request \<Rightarrow> database \<Rightarrow> database" where
  "serve rt (t, GenerateSkill analysisData skillName skillType description tags) db =
     snd (generateSkill rt db analysisData skillName skillType description tags t)"
| "serve rt (t, PutSkill skillId body) db = snd (putSkill db skillId body t)"
| "serve rt (t, DeleteSkill skillId) db = snd (deleteSkill db skillId)"
| "serve rt (t, PublishSkill skillId githubToken outcome) db =
     snd (publishSkill db skillId githubToken outcome t)"

definition serveAll :: "runtime \<Rightarrow> (int \<times> store_request) list \<Rightarrow> database \<Rightarrow> database" where
  "serveAll rt reqs db = fold (serve rt) reqs db"

text \<open>Whether a request is an update of the skill \<open>i\<close> that succeeds on the database.\<close>

fun updates :: "nat \<Rightarrow> int \<times> store_request \<Rightarrow> database \<Rightarrow> bool" where
  "updates i (t, PutSkill skillId body) db =
     (skillId = Some i \<and>
      (case fst (putSkill db skillId body t) of Reply200 answer \<Rightarrow> True | _ \<Rightarrow> False))"
| "updates i _ db = False"

fun successfulUpdates ::
  "runtime \<Rightarrow> nat \<Rightarrow> (int \<times> store_request) list \<Rightarrow> database \<Rightarrow> nat" where
  "successfulUpdates rt i [] db = 0"
| "successfulUpdates rt i (r # rs) db =
     (if updates i r db then 1 else 0) + successfulUpdates rt i rs (serve rt r db)"


text \<open>
  What holds of every database the requests can produce: the ids of the skills are distinct
  and were given out by the counter, every skill has a version of at least 1 and its
  snapshots carry the versions below it, in order, and every snapshot belongs to an id the
  counter gave out.
\<close>

definition storeInv :: "database \<Rightarrow> bool" where
  "storeInv db =
     (distinct (map row_id (skills db)) \<and>
      (\<forall>row \<in> set (skills db).
         row_id row \<le> skills_seq db \<and> 1 \<le> row_version row \<and>
         map ver_version (snapshotsOf db (row_id row)) = [1..<row_version row]) \<and>
      (\<forall>v \<in> set (skill_versions db). ver_skill_id v \<le> skills_seq db))"

definition versionBefore :: "database \<Rightarrow> nat \<Rightarrow> nat" where
  \<comment> \<open>the version a skill has, or starts with\<close>
  "versionBefore db i = (case selectSkill db i of None \<Rightarrow> 1 | Some row \<Rightarrow> row_version row)"

text \<open>A template engine and an analysis for concrete runs.\<close>

definition plainRuntime :: runtime where
  "plainRuntime =
     \<lparr>handlebars = (\<lambda>template data. ''# '' @ template), toStringJs = (\<lambda>v. ''value'')\<rparr>"

definition sampleAnalysis :: json where
  "sampleAnalysis =
     JObj [(''analysisId'', JStr ''a1''),
           (''contentType'', JStr ''process''),
           (''extractedData'', JObj [(''workflow'', JObj [(''steps'', JArr [])])]),
           (''confidence'', JNum (Finite (9/10)))]"


text \<open>A stored skill and an update request for concrete runs.\<close>

definition sampleRow :: skill_row where
  "sampleRow =
     \<lparr>row_id = 1, row_name = ''my-skill'', row_description = ''A sample skill'',
      row_skill_type = ''process'', row_version = 1, row_main_content = ''# My skill'',
      row_references = [(''practices.md'', ''# Practices'')],
      row_metadata = JObj [(''tags'', JArr [])],
      row_created_at = 0, row_updated_at = 0\<rparr>"

definition sampleStore :: database where
  "sampleStore =
     \<lparr>skills = [sampleRow], skill_versions = [], skills_seq = 1, skill_versions_seq = 0,
      foreign_keys = True\<rparr>"

definition onlyDescription :: "string \<Rightarrow> update_request" where
  "onlyDescription d =
     \<lparr>req_name = None, req_description = Some d, req_mainContent = None,
      req_references = None, req_tags = None\<rparr>"


section \<open>Name normalisation\<close>

lemma isLowerAlnum_not_hyphen: "isLowerAlnum c \<Longrightarrow> \<not> isHyphen c"
  by (auto simp: isLowerAlnum_def isHyphen_def)

lemma isLowerAlnum_not_space: "isLowerAlnum c \<Longrightarrow> \<not> isWhiteSpace c"
  by (auto simp: isLowerAlnum_def isWhiteSpace_def Let_def)

lemma isHyphen_not_space: "isHyphen c \<Longrightarrow> \<not> isWhiteSpace c"
  by (auto simp: isHyphen_def isWhiteSpace_def)

lemma toLowerCase_char_fixed: "isLowerAlnum c \<or> isHyphen c \<Longrightarrow> toLowerCase_char c = c"
  by (auto simp: isLowerAlnum_def isHyphen_def toLowerCase_char_def Let_def)

lemma toLowerCase_fixed:
  "list_all (\<lambda>c. isLowerAlnum c \<or> isHyphen c) s \<Longrightarrow> toLowerCase s = s"
  unfolding toLowerCase_def
  by (induction s) (simp_all add: toLowerCase_char_fixed)

lemma dropWhile_rev_last:
  "s \<noteq> [] \<Longrightarrow> \<not> P (last s) \<Longrightarrow> dropWhile P (rev s) = rev s"
  by (cases s rule: rev_cases) simp_all

lemma dropWhile_hd: "s \<noteq> [] \<Longrightarrow> \<not> P (hd s) \<Longrightarrow> dropWhile P s = s"
  by (cases s) simp_all

lemma ends_fixed:
  "s = [] \<or> (\<not> P (hd s) \<and> \<not> P (last s)) \<Longrightarrow> rev (dropWhile P (rev (dropWhile P s))) = s"
  by (cases "s = []") (simp_all add: dropWhile_hd dropWhile_rev_last)

lemma replaceNonAlnumRuns_fixed:
  "list_all (\<lambda>c. isLowerAlnum c \<or> isHyphen c) s \<Longrightarrow> noAdjacentHyphens s \<Longrightarrow>
   s = [] \<or> \<not> isHyphen (last s) \<Longrightarrow> replaceNonAlnumRuns s = s"
proof (induction s rule: replaceNonAlnumRuns.induct)
  case 1
  show ?case by simp
next
  case (2 c cs)
  show ?case
  proof (cases "isLowerAlnum c")
    case True
    with 2 show ?thesis
      by (cases cs) (auto simp: noAdjacentHyphens_def)
  next
    case False
    with 2 have c: "c = CHR ''-''" by (auto simp: isHyphen_def)
    from 2 c have ne: "cs \<noteq> []" by (auto simp: isHyphen_def)
    with 2 c have d: "isLowerAlnum (hd cs)"
      by (cases cs) (auto simp: noAdjacentHyphens_def isHyphen_def)
    with ne have dw: "dropWhile (\<lambda>d. \<not> isLowerAlnum d) cs = cs"
      by (cases cs) auto
    from 2 ne have "replaceNonAlnumRuns cs = cs"
      using False dw by (cases cs) (auto simp: noAdjacentHyphens_def)
    with False c dw show ?thesis by simp
  qed
qed

lemma trim_fixed:
  "normalizedAsSpecified s \<Longrightarrow> trim s = s"
  unfolding trim_def normalizedAsSpecified_def
  apply (rule ends_fixed)
  apply (cases "s = []")
   apply simp
  apply (auto simp: list_all_iff dest!: isLowerAlnum_not_space isHyphen_not_space)
  done

lemma formatSkillName_fixed: "normalizedName s \<Longrightarrow> formatSkillName s = s"
proof -
  assume n: "normalizedName s"
  then have a: "list_all (\<lambda>c. isLowerAlnum c \<or> isHyphen c) s"
    and e: "s = [] \<or> (\<not> isHyphen (hd s) \<and> \<not> isHyphen (last s))"
    and h: "noAdjacentHyphens s"
    by (auto simp: normalizedName_def normalizedAsSpecified_def)
  from n have t: "trim s = s" by (simp add: trim_fixed normalizedName_def)
  from a h e have r: "replaceNonAlnumRuns s = s" by (auto intro: replaceNonAlnumRuns_fixed)
  from e have st: "stripHyphens s = s" unfolding stripHyphens_def by (rule ends_fixed)
  show ?thesis by (simp add: formatSkillName_def toLowerCase_fixed[OF a] t r st)
qed

lemma all_replace: "list_all (\<lambda>c. isLowerAlnum c \<or> isHyphen c) (replaceNonAlnumRuns s)"
  by (induction s rule: replaceNonAlnumRuns.induct) (auto simp: isHyphen_def)

lemma hd_replace:
  "s \<noteq> [] \<Longrightarrow> isLowerAlnum (hd s) \<Longrightarrow> isLowerAlnum (hd (replaceNonAlnumRuns s))"
  by (cases s) auto

lemma noadj_replace: "noAdjacentHyphens (replaceNonAlnumRuns s)"
proof (induction s rule: replaceNonAlnumRuns.induct)
  case 1
  show ?case by (simp add: noAdjacentHyphens_def)
next
  case (2 c cs)
  show ?case
  proof (cases "isLowerAlnum c")
    case True
    from 2(1)[OF True] have "noAdjacentHyphens (replaceNonAlnumRuns cs)" .
    with True show ?thesis
      by (auto simp: noAdjacentHyphens_def successively_Cons dest: isLowerAlnum_not_hyphen)
  next
    case False
    let ?t = "dropWhile (\<lambda>d. \<not> isLowerAlnum d) cs"
    from 2(2)[OF False] have ih: "noAdjacentHyphens (replaceNonAlnumRuns ?t)" .
    have "?t = [] \<or> isLowerAlnum (hd ?t)"
      using hd_dropWhile[of "\<lambda>d. \<not> isLowerAlnum d" cs] by auto
    then have h: "replaceNonAlnumRuns ?t = [] \<or> \<not> isHyphen (hd (replaceNonAlnumRuns ?t))"
    proof
      assume "?t = []"
      then show ?thesis by (simp del: dropWhile_eq_Nil_conv)
    next
      assume a: "isLowerAlnum (hd ?t)"
      show ?thesis
      proof (cases "?t = []")
        case True
        then show ?thesis by (simp del: dropWhile_eq_Nil_conv)
      next
        case False
        from hd_replace[OF False a] show ?thesis by (simp add: isLowerAlnum_not_hyphen)
      qed
    qed
    have "replaceNonAlnumRuns (c # cs) = CHR ''-'' # replaceNonAlnumRuns ?t"
      using False by simp
    with ih h show ?thesis
      by (auto simp: noAdjacentHyphens_def successively_Cons)
  qed
qed

lemma successively_dropWhile: "successively P s \<Longrightarrow> successively P (dropWhile Q s)"
  using successively_append_iff[of P "takeWhile Q s" "dropWhile Q s"] by simp

lemma list_all_dropWhile: "list_all P s \<Longrightarrow> list_all P (dropWhile Q s)"
  by (auto simp: list_all_iff dest: set_dropWhileD)

lemma strip_all:
  "list_all P s \<Longrightarrow> list_all P (rev (dropWhile Q (rev (dropWhile Q s))))"
  by (auto simp: list_all_iff dest!: set_dropWhileD)

lemma strip_noadj: "noAdjacentHyphens s \<Longrightarrow> noAdjacentHyphens (stripHyphens s)"
  unfolding noAdjacentHyphens_def stripHyphens_def
  by (auto intro!: successively_dropWhile simp: conj_commute)

lemma strip_ends:
  "stripHyphens s = [] \<or> (\<not> isHyphen (hd (stripHyphens s)) \<and> \<not> isHyphen (last (stripHyphens s)))"
proof (cases "stripHyphens s = []")
  case True
  then show ?thesis by simp
next
  case False
  let ?t = "dropWhile isHyphen s"
  let ?u = "dropWhile isHyphen (rev ?t)"
  from False have u: "?u \<noteq> []" by (simp add: stripHyphens_def)
  then have l: "\<not> isHyphen (hd ?u)" by (rule hd_dropWhile)
  have t: "?t \<noteq> []"
  proof
    assume "?t = []"
    then have "?u = []" by (simp del: dropWhile_eq_Nil_conv)
    with u show False by contradiction
  qed
  then have ht: "\<not> isHyphen (hd ?t)" by (rule hd_dropWhile)
  have "rev ?t = takeWhile isHyphen (rev ?t) @ ?u" by simp
  then have "?t = rev ?u @ rev (takeWhile isHyphen (rev ?t))"
    by (metis rev_append rev_rev_ident)
  with u have "hd ?t = hd (rev ?u)" by (metis hd_append2 rev_is_Nil_conv)
  with ht l u show ?thesis
    by (simp add: stripHyphens_def last_rev)
qed

lemma formatSkillName_normalized: "normalizedName (formatSkillName s)"
proof -
  let ?r = "replaceNonAlnumRuns (trim (toLowerCase s))"
  have 1: "list_all (\<lambda>c. isLowerAlnum c \<or> isHyphen c) (stripHyphens ?r)"
    unfolding stripHyphens_def by (rule strip_all[OF all_replace])
  have 2: "noAdjacentHyphens (stripHyphens ?r)"
    by (rule strip_noadj[OF noadj_replace])
  from 1 2 strip_ends[of ?r] show ?thesis
    unfolding normalizedName_def normalizedAsSpecified_def formatSkillName_def by blast
qed

text \<open>
  Claim C6, as the code has it. A name made of lowercase alphanumerics and single hyphens,
  with no hyphen at either end, is returned unchanged by \<open>formatSkillName\<close>; normalising
  twice is the same as normalising once; and \<open>"My Skill!!"\<close> becomes \<open>"my-skill"\<close>.
\<close>

theorem formatSkillName_idempotent:
  "normalizedName n \<Longrightarrow>
     formatSkillName n = n \<and>
     formatSkillName (formatSkillName x) = formatSkillName x \<and>
     formatSkillName ''My Skill!!'' = ''my-skill''"
proof -
  assume n: "normalizedName n"
  have ex: "formatSkillName ''My Skill!!'' = ''my-skill''" by code_simp
  from n have "formatSkillName n = n" by (rule formatSkillName_fixed)
  moreover have "formatSkillName (formatSkillName x) = formatSkillName x"
    by (rule formatSkillName_fixed[OF formatSkillName_normalized])
  ultimately show ?thesis using ex by blast
qed

theorem formatSkillName_idempotent_witness:
  "normalizedName ''my-skill'' \<and> formatSkillName ''my-skill'' = ''my-skill''"
proof -
  have h: "normalizedName ''my-skill''" by code_simp
  from formatSkillName_idempotent[OF h] h show ?thesis by blast
qed

text \<open>
  Claim C6 as it is worded takes every string of lowercase alphanumerics and hyphens with no
  hyphen at either end as normalised. The name \<open>"a--b"\<close> has that form, and the
  normalisation changes it: the run of two hyphens becomes one.
\<close>

theorem formatSkillName_doubled_hyphen_counterexample:
  "normalizedAsSpecified ''a--b'' \<and> formatSkillName ''a--b'' = ''a-b'' \<and>
   formatSkillName ''a--b'' \<noteq> ''a--b''"
  by code_simp

section \<open>Response validation: the confidence default\<close>

lemma validConfidence_unit:
  "validConfidence (getProp p ''confidence'') \<Longrightarrow> confidenceInUnitInterval p"
  unfolding validConfidence_def confidenceInUnitInterval_def
  by (auto split: option.splits json.splits jsnumber.splits simp: not_less)

lemma getProp_Some_obj: "getProp p k = Some x \<Longrightarrow> \<exists>kvs. p = JObj kvs"
  by (cases p) simp_all

lemma truthy_opt_obj: "truthy_opt (getProp p k) \<Longrightarrow> \<exists>kvs. p = JObj kvs"
  by (cases p) (simp_all add: truthy_opt_def)

lemma getProp_setProp_same: "getProp (setProp (JObj kvs) k v) k = Some v"
  by (simp add: update_conv')

lemma getProp_setProp_other: "k' \<noteq> k \<Longrightarrow> getProp (setProp (JObj kvs) k v) k' = getProp (JObj kvs) k'"
  by (simp add: update_conv')

lemma validate_success_iff:
  "(\<exists>v. validateAnalysisResponse p = Inr v) = truthy_opt (getProp p ''extractedData'')"
proof (cases "truthy_opt (getProp p ''extractedData'')")
  case True
  then obtain kvs where "p = JObj kvs" using truthy_opt_obj by blast
  with True show ?thesis by (simp add: validateAnalysisResponse_def)
next
  case False
  then show ?thesis by (simp add: validateAnalysisResponse_def)
qed

text \<open>
  Claim C2, as the code has it. Validation succeeds exactly when the parsed value has a truthy
  \<open>extractedData\<close> property (which makes it an object). After a successful validation the
  confidence is a number in the interval from 0 to 1: a confidence that is a number in that
  interval is kept, and a missing, non-numeric or out-of-range one is replaced by 0.5; the
  extracted data is not touched.
\<close>

theorem validateAnalysisResponse_confidence:
  "((\<exists>v. validateAnalysisResponse p = Inr v) = truthy_opt (getProp p ''extractedData'')) \<and>
   (\<forall>v. validateAnalysisResponse p = Inr v \<longrightarrow>
      confidenceInUnitInterval v \<and>
      getProp v ''extractedData'' = getProp p ''extractedData'' \<and>
      (if validConfidence (getProp p ''confidence'') then v = p
       else getProp v ''confidence'' = Some (JNum (Finite (1/2)))))"
proof (intro conjI allI impI)
  show "(\<exists>v. validateAnalysisResponse p = Inr v) = truthy_opt (getProp p ''extractedData'')"
    by (rule validate_success_iff)
next
  fix v assume ok: "validateAnalysisResponse p = Inr v"
  then have "truthy_opt (getProp p ''extractedData'')"
    using validate_success_iff[of p] by blast
  then obtain kvs where p: "p = JObj kvs" using truthy_opt_obj by blast
  show "confidenceInUnitInterval v"
  proof (cases "validConfidence (getProp p ''confidence'')")
    case True
    with ok have "v = p" by (auto simp: validateAnalysisResponse_def split: if_splits)
    with True show ?thesis by (simp add: validConfidence_unit)
  next
    case False
    with ok p have "v = setProp (JObj kvs) ''confidence'' (JNum (Finite (1/2)))"
      by (auto simp: validateAnalysisResponse_def split: if_splits)
    then show ?thesis
      unfolding confidenceInUnitInterval_def by (simp add: update_conv')
  qed
  show "getProp v ''extractedData'' = getProp p ''extractedData''"
    using ok p by (auto simp: validateAnalysisResponse_def update_conv' split: if_splits)
  show "if validConfidence (getProp p ''confidence'') then v = p
       else getProp v ''confidence'' = Some (JNum (Finite (1/2)))"
    using ok p by (auto simp: validateAnalysisResponse_def update_conv' split: if_splits)
qed

theorem validateAnalysisResponse_confidence_witness:
  "validateAnalysisResponse
     (JObj [(''extractedData'', JObj []), (''confidence'', JNum (Finite 7))]) =
     Inr (JObj [(''extractedData'', JObj []), (''confidence'', JNum (Finite (1/2)))]) \<and>
   confidenceInUnitInterval
     (JObj [(''extractedData'', JObj []), (''confidence'', JNum (Finite (1/2)))]) \<and>
   validateAnalysisResponse (JObj [(''extractedData'', JObj [])]) =
     Inr (JObj [(''extractedData'', JObj []), (''confidence'', JNum (Finite (1/2)))]) \<and>
   validateAnalysisResponse
     (JObj [(''extractedData'', JObj []), (''confidence'', JNum (Finite (9/10)))]) =
     Inr (JObj [(''extractedData'', JObj []), (''confidence'', JNum (Finite (9/10)))]) \<and>
   confidenceInUnitInterval
     (JObj [(''extractedData'', JObj []), (''confidence'', JNum (Finite (9/10)))])"
proof -
  let ?p = "JObj [(''extractedData'', JObj []), (''confidence'', JNum (Finite 7))]"
  let ?q = "JObj [(''extractedData'', JObj []), (''confidence'', JNum (Finite (9/10)))]"
  have 1: "validateAnalysisResponse ?p =
     Inr (JObj [(''extractedData'', JObj []), (''confidence'', JNum (Finite (1/2)))])"
    by (simp add: validateAnalysisResponse_def truthy_opt_def validConfidence_def)
  have 2: "validateAnalysisResponse ?q = Inr ?q"
    by (simp add: validateAnalysisResponse_def truthy_opt_def validConfidence_def)
  have 3: "validateAnalysisResponse (JObj [(''extractedData'', JObj [])]) =
     Inr (JObj [(''extractedData'', JObj []), (''confidence'', JNum (Finite (1/2)))])"
    by (simp add: validateAnalysisResponse_def truthy_opt_def validConfidence_def)
  from validateAnalysisResponse_confidence[of ?p] validateAnalysisResponse_confidence[of ?q] 1 2 3
  show ?thesis by simp
qed

text \<open>
  Claim C2 as it is worded asks only for the \<open>extractedData\<close> field to be present. A
  response whose \<open>extractedData\<close> is present but \<open>null\<close>, or the empty string, is
  rejected by the test \<open>!parsed.extractedData\<close>.
\<close>

theorem validateAnalysisResponse_present_but_falsy_counterexample:
  "hasExtractedDataField (JObj [(''extractedData'', JNull), (''confidence'', JNum (Finite (9/10)))]) \<and>
   validateAnalysisResponse (JObj [(''extractedData'', JNull), (''confidence'', JNum (Finite (9/10)))]) =
     Inl (PlainError ''Missing extractedData field'') \<and>
   hasExtractedDataField (JObj [(''extractedData'', JStr ''''), (''confidence'', JNum (Finite (9/10)))]) \<and>
   validateAnalysisResponse (JObj [(''extractedData'', JStr ''''), (''confidence'', JNum (Finite (9/10)))]) =
     Inl (PlainError ''Missing extractedData field'')"
  by (simp add: validateAnalysisResponse_def truthy_opt_def hasExtractedDataField_def)


section \<open>Retrying a rate-limited call\<close>

lemma retryLoop_responded:
  "attempt \<le> maxRetries \<Longrightarrow> snd (service e (api_calls st)) = Responded text \<Longrightarrow>
   fst (retryLoop e maxRetries attempt lastError st) = Inr text"
  by (subst retryLoop.simps) (auto simp: callClaudeAPI_def Let_def split: prod.splits)

lemma classify_rateLimited:
  "te_status x = Some 429 \<Longrightarrow>
   classify x = RateLimitError
     (''Rate limit exceeded. Retry after '' @
        retryAfterText (retryAfterOfHeader (te_retry_after x)) @ ''s'')
     (retryAfterOfHeader (te_retry_after x))"
  by (simp add: classify_def Let_def)

lemma retryLoop_rateLimited_again:
  assumes "attempt < maxRetries" and "rateLimited (snd (service e (api_calls st)))"
  shows "\<exists>error st1. api_calls st1 = Suc (api_calls st) \<and>
     retryLoop e maxRetries attempt lastError st =
     retryLoop e maxRetries (Suc attempt) error st1"
proof -
  from assms(2) obtain lat x where s: "service e (api_calls st) = (lat, Threw x)"
    and x: "te_status x = Some 429"
    by (cases "service e (api_calls st)") (auto simp: rateLimited_def split: api_outcome.splits)
  let ?st1 = "st\<lparr>now := now st + int lat, api_calls := Suc (api_calls st)\<rparr>"
  have call: "callClaudeAPI e st = (Inl (classify x), ?st1)"
    by (simp add: callClaudeAPI_def s)
  have "retryable (classify x)" by (simp add: classify_rateLimited[OF x])
  with assms(1) call
  have "retryLoop e maxRetries attempt lastError st =
        retryLoop e maxRetries (Suc attempt) (classify x) (sleep (backoffMs attempt) ?st1)"
    by (subst retryLoop.simps) simp
  moreover have "api_calls (sleep (backoffMs attempt) ?st1) = Suc (api_calls st)"
    by (simp add: sleep_def)
  ultimately show ?thesis by blast
qed

lemma retryLoop_rateLimited_last:
  assumes "rateLimited (snd (service e (api_calls st)))"
  shows "\<exists>st1. api_calls st1 = Suc (api_calls st) \<and>
     retryLoop e maxRetries maxRetries lastError st =
     (Inl (RateLimitError
        (''Rate limit exceeded. Retry after '' @
           retryAfterText (retryAfterOf (snd (service e (api_calls st)))) @ ''s'')
        (retryAfterOf (snd (service e (api_calls st))))), st1)"
proof -
  from assms obtain lat x where s: "service e (api_calls st) = (lat, Threw x)"
    and x: "te_status x = Some 429"
    by (cases "service e (api_calls st)") (auto simp: rateLimited_def split: api_outcome.splits)
  let ?st1 = "st\<lparr>now := now st + int lat, api_calls := Suc (api_calls st)\<rparr>"
  have call: "callClaudeAPI e st = (Inl (classify x), ?st1)"
    by (simp add: callClaudeAPI_def s)
  have r: "retryable (classify x)" by (simp add: classify_rateLimited[OF x])
  have ra: "retryAfterOf (snd (service e (api_calls st))) = retryAfterOfHeader (te_retry_after x)"
    by (simp add: retryAfterOf_def s)
  from call r have "retryLoop e maxRetries maxRetries lastError st = (Inl (classify x), ?st1)"
    by (subst retryLoop.simps) simp
  then show ?thesis
    by (simp only: ra classify_rateLimited[OF x]) simp
qed

text \<open>
  Claim C3, as the code has it. With \<open>maxRetries = 3\<close> the loop makes at most three
  calls. When the service answers 429 to two calls in a row and answers the third, the
  operation returns that answer. When it answers 429 to three calls in a row, the operation
  fails after exactly three calls with a \<open>RateLimitError\<close> that carries the retry-after
  value of the third answer; there is no fourth call.
\<close>

theorem callClaudeWithRetry_three_attempts:
  assumes first: "rateLimited (snd (service e (api_calls st)))"
    and second: "rateLimited (snd (service e (api_calls st + 1)))"
  shows "(snd (service e (api_calls st + 2)) = Responded text \<longrightarrow>
            fst (callClaudeWithRetry e 3 st) = Inr text) \<and>
         (rateLimited (snd (service e (api_calls st + 2))) \<longrightarrow>
            (\<exists>st'. callClaudeWithRetry e 3 st =
               (Inl (RateLimitError
                  (''Rate limit exceeded. Retry after '' @
                     retryAfterText (retryAfterOf (snd (service e (api_calls st + 2)))) @ ''s'')
                  (retryAfterOf (snd (service e (api_calls st + 2))))), st') \<and>
               api_calls st' = api_calls st + 3))"
proof -
  define m :: nat where "m = 3"
  define a1 :: nat where "a1 = 1"
  define a2 :: nat where "a2 = Suc a1"
  have lt1: "a1 < m" and lt2: "a2 < m" and eq3: "Suc a2 = m"
    by (simp_all add: m_def a1_def a2_def)
  from retryLoop_rateLimited_again[OF lt1 first, of ThrownUndefined]
  obtain e1 st1 where c1: "api_calls st1 = Suc (api_calls st)"
    and r1: "retryLoop e m a1 ThrownUndefined st = retryLoop e m a2 e1 st1"
    unfolding a2_def by blast
  from second c1 have s2: "rateLimited (snd (service e (api_calls st1)))" by simp
  from retryLoop_rateLimited_again[OF lt2 s2, of e1]
  obtain e2 st2 where c2: "api_calls st2 = Suc (api_calls st1)"
    and r2: "retryLoop e m a2 e1 st1 = retryLoop e m m e2 st2"
    unfolding eq3 by blast
  from c1 c2 have c: "api_calls st2 = api_calls st + 2" by simp
  have run: "callClaudeWithRetry e 3 st = retryLoop e m m e2 st2"
    unfolding callClaudeWithRetry_def using r1 r2 by (simp only: m_def a1_def)
  show ?thesis
  proof (intro conjI impI)
    assume "snd (service e (api_calls st + 2)) = Responded text"
    with c have "snd (service e (api_calls st2)) = Responded text" by simp
    then have "fst (retryLoop e m m e2 st2) = Inr text"
      by (intro retryLoop_responded) simp_all
    then show "fst (callClaudeWithRetry e 3 st) = Inr text"
      by (simp only: run)
  next
    assume "rateLimited (snd (service e (api_calls st + 2)))"
    with c have "rateLimited (snd (service e (api_calls st2)))" by simp
    from retryLoop_rateLimited_last[OF this, of m e2]
    obtain st3 where c3: "api_calls st3 = Suc (api_calls st2)"
      and r3: "retryLoop e m m e2 st2 =
        (Inl (RateLimitError
          (''Rate limit exceeded. Retry after '' @
             retryAfterText (retryAfterOf (snd (service e (api_calls st2)))) @ ''s'')
          (retryAfterOf (snd (service e (api_calls st2))))), st3)"
      by blast
    from c c3 have "api_calls st3 = api_calls st + 3" by simp
    with r3 c run
    show "\<exists>st'. callClaudeWithRetry e 3 st =
               (Inl (RateLimitError
                  (''Rate limit exceeded. Retry after '' @
                     retryAfterText (retryAfterOf (snd (service e (api_calls st + 2)))) @ ''s'')
                  (retryAfterOf (snd (service e (api_calls st + 2))))), st') \<and>
               api_calls st' = api_calls st + 3"
      by simp
  qed
qed

theorem callClaudeWithRetry_three_attempts_witness:
  "fst (callClaudeWithRetry (rateLimitedFirst 2) 3 freshClient) = Inr ''{}'' \<and>
   (\<exists>st'. callClaudeWithRetry (rateLimitedFirst 3) 3 freshClient =
      (Inl (RateLimitError ''Rate limit exceeded. Retry after 7s'' (HeaderValue ''7'')), st') \<and>
      api_calls st' = 3)"
proof -
  have a: "rateLimited (snd (service (rateLimitedFirst 2) (api_calls freshClient)))"
    and b: "rateLimited (snd (service (rateLimitedFirst 2) (api_calls freshClient + 1)))"
    and c: "snd (service (rateLimitedFirst 2) (api_calls freshClient + 2)) = Responded ''{}''"
    by (simp_all add: rateLimitedFirst_def freshClient_def rateLimited_def tooManyRequests_def)
  have a': "rateLimited (snd (service (rateLimitedFirst 3) (api_calls freshClient)))"
    and b': "rateLimited (snd (service (rateLimitedFirst 3) (api_calls freshClient + 1)))"
    and c': "rateLimited (snd (service (rateLimitedFirst 3) (api_calls freshClient + 2)))"
    by (simp_all add: rateLimitedFirst_def freshClient_def rateLimited_def tooManyRequests_def)
  have ra: "\<And>n. n < 3 \<Longrightarrow>
      retryAfterOf (snd (service (rateLimitedFirst 3) n)) = HeaderValue ''7''"
    by (simp add: rateLimitedFirst_def retryAfterOf_def tooManyRequests_def
        retryAfterOfHeader_def)
  have z: "api_calls freshClient = 0" by (simp add: freshClient_def)
  from callClaudeWithRetry_three_attempts[OF a b, of "''{}''"] c
  have 1: "fst (callClaudeWithRetry (rateLimitedFirst 2) 3 freshClient) = Inr ''{}''" by blast
  from callClaudeWithRetry_three_attempts[OF a' b', of "''{}''"] c'
  have "\<exists>st'. callClaudeWithRetry (rateLimitedFirst 3) 3 freshClient =
      (Inl (RateLimitError
         (''Rate limit exceeded. Retry after '' @
            retryAfterText (retryAfterOf
              (snd (service (rateLimitedFirst 3) (api_calls freshClient + 2)))) @ ''s'')
         (retryAfterOf (snd (service (rateLimitedFirst 3) (api_calls freshClient + 2))))), st') \<and>
      api_calls st' = api_calls freshClient + 3"
    by blast
  then have 2: "\<exists>st'. callClaudeWithRetry (rateLimitedFirst 3) 3 freshClient =
      (Inl (RateLimitError ''Rate limit exceeded. Retry after 7s'' (HeaderValue ''7'')), st') \<and>
      api_calls st' = 3"
    by (simp add: ra z)
  from 1 2 show ?thesis by blast
qed

text \<open>
  Claim C3 as it is worded has the operation succeed when the service answers 429 three
  times and would answer a fourth call. The loop stops at the third 429: the operation fails
  with the \<open>RateLimitError\<close> after three calls, although the fourth call would have been
  answered. The same holds through \<open>callClaudeWithRateLimit\<close>, which uses the default
  \<open>maxRetries\<close>.
\<close>

theorem callClaudeWithRetry_fourth_attempt_counterexample:
  "callClaudeWithRetry (rateLimitedFirst 3) 3 freshClient =
     (Inl (RateLimitError ''Rate limit exceeded. Retry after 7s'' (HeaderValue ''7'')),
      \<lparr>now = 6000, api_calls = 3, requests = []\<rparr>) \<and>
   callClaudeWithRateLimit (rateLimitedFirst 3) freshClient =
     (Inl (RateLimitError ''Rate limit exceeded. Retry after 7s'' (HeaderValue ''7'')),
      \<lparr>now = 6000, api_calls = 3, requests = [0]\<rparr>) \<and>
   service (rateLimitedFirst 3) 3 = (0, Responded ''{}'')"
  by code_simp


section \<open>Parsing strategies\<close>









section \<open>Input validation comes first\<close>

text \<open>
  Claim C9. A content shorter than ten characters makes \<open>analyzeContent\<close> fail with the
  validation error \<open>Content too short for analysis\<close> and leaves the whole state as it was:
  no call of the external service, no cache entry, no callback, no entry in the ledger of the
  rate limiter. The route answers such a body with 400 \<open>Validation failed\<close>, again with the
  state untouched.
\<close>

theorem analyzeContent_too_short:
  "length content < 10 \<Longrightarrow> getProp body ''content'' = Some (JStr content) \<Longrightarrow>
     analyzeContent e content t st =
       (Inl (AnalysisError ''Content too short for analysis''), st) \<and>
     postAnalyze e body st = (ValidationFailed400, st)"
  by (auto simp: analyzeContent_def postAnalyze_def AnalyzeRequestSchema_def
           split: option.splits json.splits)

theorem analyzeContent_too_short_witness:
  "analyzeContent (rateLimitedFirst 0) ''hello'' ''process'' (initialState 0) =
     (Inl (AnalysisError ''Content too short for analysis''), initialState 0) \<and>
   postAnalyze (rateLimitedFirst 0)
     (JObj [(''content'', JStr ''hello''), (''contentType'', JStr ''process'')]) (initialState 0) =
     (ValidationFailed400, initialState 0)"
proof -
  have 1: "length ''hello'' < 10" by simp
  have 2: "getProp (JObj [(''content'', JStr ''hello''), (''contentType'', JStr ''process'')])
             ''content'' = Some (JStr ''hello'')" by simp
  from analyzeContent_too_short[OF 1 2] show ?thesis .
qed

section \<open>The cache\<close>

lemma acquireLoop_mono: "acquireLoop t reqs = (t', reqs') \<Longrightarrow> t \<le> t'"
proof (induction t reqs rule: acquireLoop.induct)
  case (1 t reqs)
  let ?kept = "filter (\<lambda>time. t - time < windowMs) reqs"
  show ?case
  proof (cases "maxRequests \<le> length ?kept")
    case True
    then have "?kept \<noteq> []" unfolding maxRequests_def by (cases ?kept) simp_all
    then have "set ?kept \<noteq> {}" by (simp only: set_empty not_False_eq_True)
    then have "Min (set ?kept) \<in> set ?kept" by (intro Min_in) (rule finite_set)
    then have lt: "t - Min (set ?kept) < windowMs" by simp
    let ?t1 = "t + (windowMs - (t - Min (set ?kept)))"
    from True "1.prems" have "acquireLoop ?t1 ?kept = (t', reqs')"
      by (subst (asm) acquireLoop.simps) simp
    from "1.IH"[OF True this] lt show ?thesis by simp
  next
    case False
    with "1.prems" show ?thesis by (subst (asm) acquireLoop.simps) simp
  qed
qed

lemma acquire_frame: "\<exists>n r. acquire st = st\<lparr>now := n, requests := r\<rparr> \<and> now st \<le> n"
proof -
  obtain t' r' where a: "acquireLoop (now st) (requests st) = (t', r')"
    by (cases "acquireLoop (now st) (requests st)")
  from acquireLoop_mono[OF a] a show ?thesis by (auto simp: acquire_def)
qed

lemma backoffMs_nonneg: "0 \<le> backoffMs a"
  by (simp add: backoffMs_def)

lemma retryLoop_frame:
  "retryLoop e m a le st = (res, st1) \<Longrightarrow>
   \<exists>n c. st1 = st\<lparr>now := n, api_calls := c\<rparr> \<and> now st \<le> n"
proof (induction e m a le st rule: retryLoop.induct)
  case (1 e m a le st)
  obtain lat outcome where s: "service e (api_calls st) = (lat, outcome)"
    by (cases "service e (api_calls st)")
  let ?st' = "st\<lparr>now := now st + int lat, api_calls := Suc (api_calls st)\<rparr>"
  show ?case
  proof (cases "a \<le> m")
    case False
    with "1.prems" have "st1 = st" by (subst (asm) retryLoop.simps) simp
    then have "st1 = st\<lparr>now := now st, api_calls := api_calls st\<rparr>" by simp
    then show ?thesis by (metis order_refl)
  next
    case True
    show ?thesis
    proof (cases outcome)
      case (Responded answer)
      with s have c: "callClaudeAPI e st = (Inr answer, ?st')" by (simp add: callClaudeAPI_def)
      with True "1.prems" have "st1 = ?st'" by (subst (asm) retryLoop.simps) simp
      moreover have "now st \<le> now st + int lat" by simp
      ultimately show ?thesis by blast
    next
      case (Threw x)
      with s have c: "callClaudeAPI e st = (Inl (classify x), ?st')"
        by (simp add: callClaudeAPI_def)
      show ?thesis
      proof (cases "\<not> retryable (classify x) \<or> a = m")
        case stop: True
        with True c "1.prems" have "st1 = ?st'"
          by (subst (asm) retryLoop.simps) (auto split: if_splits)
        moreover have "now st \<le> now st + int lat" by simp
        ultimately show ?thesis by blast
      next
        case go: False
        let ?st2 = "sleep (backoffMs a) ?st'"
        from go True c "1.prems"
        have r: "retryLoop e m (Suc a) (classify x) ?st2 = (res, st1)"
          by (subst (asm) retryLoop.simps) simp
        from go have g1: "\<not> \<not> retryable (classify x)" and g2: "a \<noteq> m" by simp_all
        from "1.IH"[OF True c[symmetric] refl g1 g2 r]
        obtain n c' where st1: "st1 = ?st2\<lparr>now := n, api_calls := c'\<rparr>"
          and le: "now ?st2 \<le> n" by blast
        from st1 have "st1 = st\<lparr>now := n, api_calls := c'\<rparr>" by (simp add: sleep_def)
        moreover from le backoffMs_nonneg[of a] have "now st \<le> n" by (simp add: sleep_def)
        ultimately show ?thesis by blast
      qed
    qed
  qed
qed

lemma callClaudeWithRateLimit_frame:
  assumes "callClaudeWithRateLimit e st = (res, st1)"
  shows "\<exists>n c r. st1 = st\<lparr>now := n, api_calls := c, requests := r\<rparr> \<and> now st \<le> n"
proof -
  obtain n0 r0 where a: "acquire st = st\<lparr>now := n0, requests := r0\<rparr>" and le0: "now st \<le> n0"
    using acquire_frame[of st] by blast
  from assms have "retryLoop e 3 1 ThrownUndefined (acquire st) = (res, st1)"
    by (simp add: callClaudeWithRateLimit_def callClaudeWithRetry_def)
  from retryLoop_frame[OF this] obtain n c
    where "st1 = (acquire st)\<lparr>now := n, api_calls := c\<rparr>" and "now (acquire st) \<le> n"
    by blast
  with a le0 have "st1 = st\<lparr>now := n, api_calls := c, requests := r0\<rparr>" and "now st \<le> n"
    by simp_all
  then show ?thesis by blast
qed


lemma same_key_same_due:
  "distinct (map snd xs) \<Longrightarrow> (a, k) \<in> set xs \<Longrightarrow> (b, k) \<in> set xs \<Longrightarrow> a = b"
  by (induction xs) (auto simp: image_iff)

lemma runTimers_inv:
  assumes keys: "\<forall>key. (analysisCache st key \<noteq> None) = (key \<in> snd ` set (timers st))"
    and dist: "distinct (map snd (timers st))"
  shows "cacheInv (runTimers st)"
proof -
  let ?fired = "filter (\<lambda>(due, key). due \<le> now st) (timers st)"
  let ?left = "filter (\<lambda>(due, key). \<not> due \<le> now st) (timers st)"
  have 1: "\<forall>(due, key) \<in> set ?left. now st < due" by auto
  have 2: "(analysisCache (runTimers st) key \<noteq> None) = (key \<in> snd ` set ?left)" for key
  proof
    assume "analysisCache (runTimers st) key \<noteq> None"
    then have nf: "key \<notin> snd ` set ?fired" and "analysisCache st key \<noteq> None"
      by (auto simp: runTimers_def split: if_splits)
    with keys obtain due where d: "(due, key) \<in> set (timers st)" by auto
    with nf have "\<not> due \<le> now st" by (auto simp: image_iff)
    with d show "key \<in> snd ` set ?left" by (auto simp: image_iff)
  next
    assume "key \<in> snd ` set ?left"
    then obtain due where d: "(due, key) \<in> set (timers st)" and late: "\<not> due \<le> now st"
      by auto
    have "key \<notin> snd ` set ?fired"
    proof
      assume "key \<in> snd ` set ?fired"
      then obtain due' where d': "(due', key) \<in> set (timers st)" and "due' \<le> now st" by auto
      with same_key_same_due[OF dist d d'] late show False by simp
    qed
    moreover from d have "key \<in> snd ` set (timers st)" by force
    with keys have "analysisCache st key \<noteq> None" by blast
    ultimately show "analysisCache (runTimers st) key \<noteq> None"
      by (simp add: runTimers_def)
  qed
  have 3: "distinct (map snd ?left)" using dist by (rule distinct_map_filter)
  from 1 2 3 show ?thesis
    unfolding cacheInv_def by (simp add: runTimers_def)
qed

lemma analyzeContent_cases:
  obtains (unchanged) "snd (analyzeContent e c t st) = st"
      and "(\<exists>err. fst (analyzeContent e c t st) = Inl err) \<or>
           analysisCache st (getCacheKey e c t) \<noteq> None"
  | (failed) res st1 err where "callClaudeWithRateLimit e st = (res, st1)"
      and "analyzeContent e c t st = (Inl err, runTimers st1)"
  | (stored) answer st1 result where "callClaudeWithRateLimit e st = (Inr answer, st1)"
      and "analysisCache st (getCacheKey e c t) = None"
      and "analyzeContent e c t st =
        (Inr result,
         (runTimers st1)\<lparr>analysisCache :=
              (analysisCache (runTimers st1))(getCacheKey e c t \<mapsto> result),
            timers := timers (runTimers st1) @ [(now (runTimers st1) + ttlMs, getCacheKey e c t)],
            uuids := Suc (uuids (runTimers st1))\<rparr>)"
proof -
  obtain res st1 where call: "callClaudeWithRateLimit e st = (res, st1)"
    by (cases "callClaudeWithRateLimit e st")
  show ?thesis
  proof (cases "(c = [] \<or> length c < 10) \<or> 50000 < length c \<or> \<not> hasFramework t \<or>
      analysisCache st (getCacheKey e c t) \<noteq> None \<or> \<not> shouldAnalyzeContent c")
    case True
    then have "snd (analyzeContent e c t st) = st"
      and "(\<exists>err. fst (analyzeContent e c t st) = Inl err) \<or>
           analysisCache st (getCacheKey e c t) \<noteq> None"
      by (auto simp: analyzeContent_def Let_def split: option.splits)
    then show ?thesis by (rule unchanged)
  next
    case False
    then have pre: "\<not> (c = [] \<or> length c < 10)" "\<not> 50000 < length c" "hasFramework t"
      "analysisCache st (getCacheKey e c t) = None" "shouldAnalyzeContent c" by auto
    show ?thesis
    proof (cases res)
      case (Inl error)
      with call pre have "analyzeContent e c t st = (Inl (rethrow error), runTimers st1)"
        by (simp add: analyzeContent_def Let_def)
      with call show ?thesis by (rule failed)
    next
      case (Inr answer)
      note r = this
      show ?thesis
      proof (cases "parseClaudeResponse answer")
        case (Inl error)
        with call pre r have "analyzeContent e c t st = (Inl (rethrow error), runTimers st1)"
          by (simp add: analyzeContent_def Let_def)
        with call show ?thesis by (rule failed)
      next
        case (Inr parsed)
        note p = this
        show ?thesis
        proof (cases "validateAnalysisResponse parsed")
          case (Inl error)
          with call pre r p have "analyzeContent e c t st = (Inl (rethrow error), runTimers st1)"
            by (simp add: analyzeContent_def Let_def)
          with call show ?thesis by (rule failed)
        next
          case (Inr validated)
          with call pre r p show ?thesis
            by (intro stored[of answer st1]) (simp_all add: analyzeContent_def Let_def)
        qed
      qed
    qed
  qed
qed

lemma runTimers_now: "now (runTimers st) = now st"
  by (simp add: runTimers_def)

lemma runTimers_keeps:
  assumes dist: "distinct (map snd (timers st))"
    and c: "analysisCache st k = Some r" and d: "(due, k) \<in> set (timers st)"
    and late: "now st < due"
  shows "analysisCache (runTimers st) k = Some r \<and> (due, k) \<in> set (timers (runTimers st))"
proof -
  have "k \<notin> snd ` set (filter (\<lambda>(due, key). due \<le> now st) (timers st))"
  proof
    assume "k \<in> snd ` set (filter (\<lambda>(due, key). due \<le> now st) (timers st))"
    then obtain due' where d': "(due', k) \<in> set (timers st)" and "due' \<le> now st" by auto
    with same_key_same_due[OF dist d d'] late show False by simp
  qed
  with c d late show ?thesis by (simp add: runTimers_def)
qed

lemma analyzeContent_inv:
  assumes inv: "cacheInv st"
  shows "cacheInv (snd (analyzeContent e c t st))"
proof (cases rule: analyzeContent_cases[where e=e and c=c and t=t and st=st])
  case unchanged
  with inv show ?thesis by simp
next
  case (failed res st1 err)
  from callClaudeWithRateLimit_frame[OF failed(1)] obtain n a r
    where st1: "st1 = st\<lparr>now := n, api_calls := a, requests := r\<rparr>" by blast
  from inv have "\<forall>key. (analysisCache st1 key \<noteq> None) = (key \<in> snd ` set (timers st1))"
    and "distinct (map snd (timers st1))"
    by (simp_all add: cacheInv_def st1)
  then have "cacheInv (runTimers st1)" by (rule runTimers_inv)
  with failed(2) show ?thesis by simp
next
  case (stored answer st1 result)
  from callClaudeWithRateLimit_frame[OF stored(1)] obtain n a r
    where st1: "st1 = st\<lparr>now := n, api_calls := a, requests := r\<rparr>" by blast
  let ?k = "getCacheKey e c t"
  let ?st2 = "runTimers st1"
  from inv have "\<forall>key. (analysisCache st1 key \<noteq> None) = (key \<in> snd ` set (timers st1))"
    and "distinct (map snd (timers st1))"
    by (simp_all add: cacheInv_def st1)
  then have i2: "cacheInv ?st2" by (rule runTimers_inv)
  from stored(2) have "analysisCache ?st2 ?k = None"
    by (simp add: runTimers_def st1)
  moreover from i2 have "(analysisCache ?st2 ?k \<noteq> None) = (?k \<in> snd ` set (timers ?st2))"
    unfolding cacheInv_def by blast
  ultimately have fresh: "?k \<notin> snd ` set (timers ?st2)" by simp
  have pos: "0 < ttlMs" by (simp add: ttlMs_def)
  from i2 fresh pos have "cacheInv (?st2\<lparr>analysisCache := (analysisCache ?st2)(?k \<mapsto> result),
            timers := timers ?st2 @ [(now ?st2 + ttlMs, ?k)],
            uuids := Suc (uuids ?st2)\<rparr>)"
    unfolding cacheInv_def by (auto simp: image_iff)
  with stored(3) show ?thesis by simp
qed

lemma analyzeContent_now_mono: "now st \<le> now (snd (analyzeContent e c t st))"
proof (cases rule: analyzeContent_cases[where e=e and c=c and t=t and st=st])
  case unchanged
  then show ?thesis by simp
next
  case (failed res st1 err)
  from callClaudeWithRateLimit_frame[OF failed(1)] failed(2) show ?thesis
    by (auto simp: runTimers_now)
next
  case (stored answer st1 result)
  from callClaudeWithRateLimit_frame[OF stored(1)] stored(3) show ?thesis
    by (auto simp: runTimers_now)
qed

lemma analyzeContent_keeps:
  assumes inv: "cacheInv st"
    and c: "analysisCache st k = Some r" and d: "(due, k) \<in> set (timers st)"
    and late: "now (snd (analyzeContent e c' t st)) < due"
  shows "analysisCache (snd (analyzeContent e c' t st)) k = Some r \<and>
         (due, k) \<in> set (timers (snd (analyzeContent e c' t st)))"
proof (cases rule: analyzeContent_cases[where e=e and c=c' and t=t and st=st])
  case unchanged
  with c d show ?thesis by simp
next
  case (failed res st1 err)
  from callClaudeWithRateLimit_frame[OF failed(1)] obtain n a r'
    where st1: "st1 = st\<lparr>now := n, api_calls := a, requests := r'\<rparr>" by blast
  from inv have dist: "distinct (map snd (timers st1))" by (simp add: cacheInv_def st1)
  from c d have c1: "analysisCache st1 k = Some r" and d1: "(due, k) \<in> set (timers st1)"
    by (simp_all add: st1)
  from late failed(2) have "now st1 < due" by (simp add: runTimers_now)
  from runTimers_keeps[OF dist c1 d1 this] failed(2) show ?thesis by simp
next
  case (stored answer st1 result)
  from callClaudeWithRateLimit_frame[OF stored(1)] obtain n a r'
    where st1: "st1 = st\<lparr>now := n, api_calls := a, requests := r'\<rparr>" by blast
  from inv have dist: "distinct (map snd (timers st1))" by (simp add: cacheInv_def st1)
  from c d have c1: "analysisCache st1 k = Some r" and d1: "(due, k) \<in> set (timers st1)"
    by (simp_all add: st1)
  from late stored(3) have "now st1 < due" by (simp add: runTimers_now)
  from runTimers_keeps[OF dist c1 d1 this]
  have k2: "analysisCache (runTimers st1) k = Some r" "(due, k) \<in> set (timers (runTimers st1))"
    by simp_all
  from stored(2) c have "getCacheKey e c' t \<noteq> k" by auto
  with k2 stored(3) show ?thesis by simp
qed

lemma step_inv: "cacheInv st \<Longrightarrow> cacheInv (step e ev st)"
proof (cases ev)
  case (Tick d)
  assume "cacheInv st"
  then have "\<forall>key. (analysisCache (st\<lparr>now := now st + int d\<rparr>) key \<noteq> None) =
        (key \<in> snd ` set (timers (st\<lparr>now := now st + int d\<rparr>)))"
    and "distinct (map snd (timers (st\<lparr>now := now st + int d\<rparr>)))"
    by (simp_all add: cacheInv_def)
  then have "cacheInv (runTimers (st\<lparr>now := now st + int d\<rparr>))" by (rule runTimers_inv)
  with Tick show ?thesis by simp
next
  case (Analyze c t)
  assume "cacheInv st"
  with Analyze show ?thesis by (simp add: analyzeContent_inv)
qed

lemma step_now_mono: "now st \<le> now (step e ev st)"
  by (cases ev) (simp_all add: runTimers_now analyzeContent_now_mono)

lemma step_keeps:
  assumes inv: "cacheInv st"
    and c: "analysisCache st k = Some r" and d: "(due, k) \<in> set (timers st)"
    and late: "now (step e ev st) < due"
  shows "analysisCache (step e ev st) k = Some r \<and> (due, k) \<in> set (timers (step e ev st))"
proof (cases ev)
  case (Tick n)
  let ?st = "st\<lparr>now := now st + int n\<rparr>"
  from inv have dist: "distinct (map snd (timers ?st))" by (simp add: cacheInv_def)
  from c d have c1: "analysisCache ?st k = Some r" and d1: "(due, k) \<in> set (timers ?st)"
    by simp_all
  from late Tick have "now ?st < due" by (simp add: runTimers_now)
  from runTimers_keeps[OF dist c1 d1 this] Tick show ?thesis by simp
next
  case (Analyze c' t)
  with analyzeContent_keeps[OF inv c d, of e c' t] late show ?thesis by simp
qed

lemma run_inv: "cacheInv st \<Longrightarrow> cacheInv (run e evs st)"
  unfolding run_def by (induction evs arbitrary: st) (simp_all add: step_inv)

lemma run_now_mono: "now st \<le> now (run e evs st)"
  unfolding run_def
proof (induction evs arbitrary: st)
  case Nil
  show ?case by simp
next
  case (Cons ev evs)
  from step_now_mono[of st e ev] Cons[of "step e ev st"] show ?case by simp
qed

lemma run_keeps:
  "cacheInv st \<Longrightarrow> analysisCache st k = Some r \<Longrightarrow> (due, k) \<in> set (timers st) \<Longrightarrow>
   now (run e evs st) < due \<Longrightarrow> analysisCache (run e evs st) k = Some r"
proof (induction evs arbitrary: st)
  case Nil
  then show ?case by (simp add: run_def)
next
  case (Cons ev evs)
  have r: "run e (ev # evs) st = run e evs (step e ev st)" by (simp add: run_def)
  from run_now_mono[of "step e ev st" e evs] Cons.prems(4) r
  have late: "now (step e ev st) < due" by simp
  from step_keeps[OF Cons.prems(1-3) late]
  have "analysisCache (step e ev st) k = Some r" "(due, k) \<in> set (timers (step e ev st))"
    by simp_all
  with Cons.IH[OF step_inv[OF Cons.prems(1)], of e ev] Cons.prems(4) r show ?case by simp
qed

lemma initialState_inv: "cacheInv (initialState t0)"
  by (simp add: cacheInv_def initialState_def)

lemma analyzeContent_hit:
  "10 \<le> length c \<Longrightarrow> length c \<le> 50000 \<Longrightarrow> hasFramework t \<Longrightarrow>
   analysisCache st (getCacheKey e c t) = Some r \<Longrightarrow> analyzeContent e c t st = (Inr r, st)"
  by (auto simp: analyzeContent_def)

lemma analyzeContent_success_inputs:
  "analyzeContent e c t st = (Inr r, s1) \<Longrightarrow> 10 \<le> length c \<and> length c \<le> 50000 \<and> hasFramework t"
  by (auto simp: analyzeContent_def split: if_splits)

lemma analyzeContent_miss_success:
  assumes "10 \<le> length c" "length c \<le> 50000" "hasFramework t"
    and "analysisCache st (getCacheKey e c t) = None"
    and "callClaudeWithRateLimit e st = (Inr answer, st1)"
    and "parseClaudeResponse answer = Inr parsed"
    and "validateAnalysisResponse parsed = Inr validated"
  shows "analyzeContent e c t st =
    (Inr \<lparr>analysisId = randomUUID e (uuids (runTimers st1)),
           contentType = t,
           extractedData = getProp validated ''extractedData'',
           confidence = getProp validated ''confidence'',
           processingTime = of_int (now (runTimers st1) - now st) / 1000,
           notes' = notesOrEmpty (getProp validated ''notes''),
           timestamp = now (runTimers st1)\<rparr>,
     (runTimers st1)\<lparr>analysisCache := (analysisCache (runTimers st1))
          (getCacheKey e c t \<mapsto>
             \<lparr>analysisId = randomUUID e (uuids (runTimers st1)),
              contentType = t,
              extractedData = getProp validated ''extractedData'',
              confidence = getProp validated ''confidence'',
              processingTime = of_int (now (runTimers st1) - now st) / 1000,
              notes' = notesOrEmpty (getProp validated ''notes''),
              timestamp = now (runTimers st1)\<rparr>),
        timers := timers (runTimers st1) @ [(now (runTimers st1) + ttlMs, getCacheKey e c t)],
        uuids := Suc (uuids (runTimers st1))\<rparr>)"
proof -
  from assms(1,2) have "shouldAnalyzeContent c"
    by (simp add: shouldAnalyzeContent_def estimateTokens_def)
  with assms show ?thesis
    by (auto simp: analyzeContent_def Let_def)
qed

lemma answering_call:
  "callClaudeWithRateLimit (answering answer) (initialState 0) =
     (Inr answer, (initialState 0)\<lparr>now := 250, api_calls := 1, requests := [0]\<rparr>)"
proof -
  have acq: "acquireLoop 0 [] = (0, [0])"
    by (subst acquireLoop.simps) (simp add: maxRequests_def)
  have "retryLoop (answering answer) 3 1 ThrownUndefined st =
      (Inr answer, st\<lparr>now := now st + 250, api_calls := Suc (api_calls st)\<rparr>)" for st :: app_state
    by (subst retryLoop.simps) (simp add: callClaudeAPI_def answering_def)
  then show ?thesis
    by (simp add: callClaudeWithRateLimit_def callClaudeWithRetry_def acquire_def acq
        initialState_def)
qed

lemma sample_parse:
  "parseClaudeResponse sampleAnswer =
     Inr (JObj [(''extractedData'', JObj [(''workflow'', JObj [(''steps'', JArr [])])]),
                (''confidence'', JNum (Finite (1/2)))])"
  by code_simp

lemma sample_validate:
  "validateAnalysisResponse
     (JObj [(''extractedData'', JObj [(''workflow'', JObj [(''steps'', JArr [])])]),
            (''confidence'', JNum (Finite (1/2)))]) =
   Inr (JObj [(''extractedData'', JObj [(''workflow'', JObj [(''steps'', JArr [])])]),
              (''confidence'', JNum (Finite (1/2)))])"
  by (simp add: validateAnalysisResponse_def truthy_opt_def validConfidence_def)

lemma sample_first:
  "analyzeContent (answering sampleAnswer) ''0123456789'' ''process'' (initialState 0) =
     (Inr sampleResult,
      \<lparr>now = 250, api_calls = 1, requests = [0],
       analysisCache = [''process:0123456789process'' \<mapsto> sampleResult],
       timers = [(900250, ''process:0123456789process'')], uuids = 1\<rparr>)"
proof -
  have hf: "hasFramework ''process''" by code_simp
  have miss: "analysisCache (initialState 0)
     (getCacheKey (answering sampleAnswer) ''0123456789'' ''process'') = None"
    by (simp add: initialState_def)
  have "(10::nat) \<le> length ''0123456789''" "length ''0123456789'' \<le> 50000" by simp_all
  from analyzeContent_miss_success[OF this hf miss answering_call sample_parse sample_validate]
  show ?thesis
    by (simp add: sampleResult_def runTimers_def initialState_def answering_def notesOrEmpty_def
        getCacheKey_def ttlMs_def)
qed

lemma analyzeContent_parts:
  "analyzeContent e content t st =
     (case analyzeStart e content t st of
        Returned outcome \<Rightarrow> (outcome, st)
      | Awaiting cacheKey startTime \<Rightarrow>
          (case callClaudeWithRateLimit e st of
             (answer, st1) \<Rightarrow> analyzeResume e t cacheKey startTime answer (runTimers st1)))"
  by (auto simp: analyzeContent_def analyzeStart_def analyzeResume_def Let_def
      split: option.splits sum.splits prod.splits)

lemma retryLoop_calls:
  "a \<le> m \<Longrightarrow> retryLoop e m a le st = (res, st1) \<Longrightarrow>
   api_calls st < api_calls st1 \<and> api_calls st1 + a \<le> api_calls st + Suc m"
proof (induction e m a le st rule: retryLoop.induct)
  case (1 e m a le st)
  obtain lat outcome where s: "service e (api_calls st) = (lat, outcome)"
    by (cases "service e (api_calls st)")
  let ?st' = "st\<lparr>now := now st + int lat, api_calls := Suc (api_calls st)\<rparr>"
  note le = \<open>a \<le> m\<close>
  show ?case
  proof (cases outcome)
    case (Responded answer)
    with s have c: "callClaudeAPI e st = (Inr answer, ?st')" by (simp add: callClaudeAPI_def)
    with le "1.prems"(2) have "st1 = ?st'" by (subst (asm) retryLoop.simps) simp
    with le show ?thesis by simp
  next
    case (Threw x)
    with s have c: "callClaudeAPI e st = (Inl (classify x), ?st')"
      by (simp add: callClaudeAPI_def)
    show ?thesis
    proof (cases "\<not> retryable (classify x) \<or> a = m")
      case stop: True
      with le c "1.prems"(2) have "st1 = ?st'"
        by (subst (asm) retryLoop.simps) (auto split: if_splits)
      with le show ?thesis by simp
    next
      case go: False
      let ?st2 = "sleep (backoffMs a) ?st'"
      from go le c "1.prems"(2)
      have r: "retryLoop e m (Suc a) (classify x) ?st2 = (res, st1)"
        by (subst (asm) retryLoop.simps) simp
      from go have g1: "\<not> \<not> retryable (classify x)" and g2: "a \<noteq> m" by simp_all
      from g2 le have le': "Suc a \<le> m" by simp
      from "1.IH"[OF le c[symmetric] refl g1 g2 le' r]
      show ?thesis by (simp add: sleep_def)
    qed
  qed
qed

lemma callClaudeWithRateLimit_calls:
  assumes "callClaudeWithRateLimit e st = (res, st1)"
  shows "api_calls st < api_calls st1 \<and> api_calls st1 \<le> api_calls st + 3"
proof -
  obtain n0 r0 where a: "acquire st = st\<lparr>now := n0, requests := r0\<rparr>"
    using acquire_frame[of st] by blast
  from assms have "retryLoop e 3 1 ThrownUndefined (acquire st) = (res, st1)"
    by (simp add: callClaudeWithRateLimit_def callClaudeWithRetry_def)
  from retryLoop_calls[OF _ this] a show ?thesis by simp
qed

lemma runTimers_api_calls: "api_calls (runTimers st) = api_calls st"
  by (simp add: runTimers_def)

lemma runTimers_timers: "set (timers (runTimers st)) \<subseteq> set (timers st)"
  by (auto simp: runTimers_def)

lemma analyzeContent_bounded:
  assumes b: "\<forall>(due, key) \<in> set (timers st). due \<le> now st + ttlMs"
  shows "\<forall>(due, key) \<in> set (timers (snd (analyzeContent e c t st))).
           due \<le> now (snd (analyzeContent e c t st)) + ttlMs"
proof (cases rule: analyzeContent_cases[where e=e and c=c and t=t and st=st])
  case unchanged
  with b show ?thesis by simp
next
  case (failed res st1 err)
  from callClaudeWithRateLimit_frame[OF failed(1)] obtain n a r
    where st1: "st1 = st\<lparr>now := n, api_calls := a, requests := r\<rparr>" and le: "now st \<le> n"
    by blast
  from b le st1 runTimers_timers[of st1]
  have "\<forall>(due, key) \<in> set (timers (runTimers st1)). due \<le> now (runTimers st1) + ttlMs"
    by (fastforce simp: runTimers_now)
  with failed(2) show ?thesis by simp
next
  case (stored answer st1 result)
  from callClaudeWithRateLimit_frame[OF stored(1)] obtain n a r
    where st1: "st1 = st\<lparr>now := n, api_calls := a, requests := r\<rparr>" and le: "now st \<le> n"
    by blast
  from b le st1 runTimers_timers[of st1]
  have "\<forall>(due, key) \<in> set (timers (runTimers st1)). due \<le> now (runTimers st1) + ttlMs"
    by (fastforce simp: runTimers_now)
  with stored(3) show ?thesis by (auto simp: runTimers_now)
qed

lemma step_bounded:
  assumes b: "\<forall>(due, key) \<in> set (timers st). due \<le> now st + ttlMs"
  shows "\<forall>(due, key) \<in> set (timers (step e ev st)). due \<le> now (step e ev st) + ttlMs"
proof (cases ev)
  case (Tick d)
  from b runTimers_timers[of "st\<lparr>now := now st + int d\<rparr>"]
  have "\<forall>(due, key) \<in> set (timers (runTimers (st\<lparr>now := now st + int d\<rparr>))).
          due \<le> now (runTimers (st\<lparr>now := now st + int d\<rparr>)) + ttlMs"
    by (fastforce simp: runTimers_now)
  with Tick show ?thesis by simp
next
  case (Analyze c t)
  with analyzeContent_bounded[OF b, of e c t] show ?thesis by simp
qed

lemma run_bounded:
  "\<forall>(due, key) \<in> set (timers st). due \<le> now st + ttlMs \<Longrightarrow>
   \<forall>(due, key) \<in> set (timers (run e evs st)). due \<le> now (run e evs st) + ttlMs"
  unfolding run_def by (induction evs arbitrary: st) (simp_all add: step_bounded)

lemma initialState_bounded:
  "\<forall>(due, key) \<in> set (timers (initialState t0)). due \<le> now (initialState t0) + ttlMs"
  by (simp add: initialState_def)

lemma acquireLoop_room:
  "length (filter (\<lambda>time. t - time < windowMs) reqs) < maxRequests \<Longrightarrow>
   acquireLoop t reqs = (t, filter (\<lambda>time. t - time < windowMs) reqs @ [t])"
  by (subst acquireLoop.simps) simp

lemma retryLoop_answered:
  "service e (api_calls st) = (lat, Responded answer) \<Longrightarrow>
   retryLoop e 3 1 le st =
     (Inr answer, st\<lparr>now := now st + int lat, api_calls := Suc (api_calls st)\<rparr>)"
  by (subst retryLoop.simps) (simp add: callClaudeAPI_def)

lemma retryLoop_retried:
  assumes "service e (api_calls st) = (lat1, Threw x)" and "retryable (classify x)"
    and "service e (Suc (api_calls st)) = (lat2, Responded answer)"
  shows "retryLoop e 3 1 le st =
     (Inr answer, st\<lparr>now := now st + int lat1 + 2000 + int lat2,
                       api_calls := Suc (Suc (api_calls st))\<rparr>)"
proof -
  let ?st1 = "sleep (backoffMs 1) (st\<lparr>now := now st + int lat1, api_calls := Suc (api_calls st)\<rparr>)"
  have "retryLoop e 3 1 le st = retryLoop e 3 (Suc 1) (classify x) ?st1"
    using assms(1,2) by (subst retryLoop.simps) (simp add: callClaudeAPI_def)
  also have "\<dots> = (Inr answer, ?st1\<lparr>now := now ?st1 + int lat2, api_calls := Suc (api_calls ?st1)\<rparr>)"
    using assms(3) by (subst retryLoop.simps) (simp add: callClaudeAPI_def sleep_def)
  finally show ?thesis by (simp add: sleep_def backoffMs_def)
qed

lemma acquire_room:
  "length (filter (\<lambda>time. now st - time < windowMs) (requests st)) < maxRequests \<Longrightarrow>
   acquire st =
     st\<lparr>requests := filter (\<lambda>time. now st - time < windowMs) (requests st) @ [now st]\<rparr>"
  by (simp add: acquire_def acquireLoop_room)

lemma callClaudeWithRateLimit_answered:
  assumes "length (filter (\<lambda>time. now st - time < windowMs) (requests st)) < maxRequests"
    and "service e (api_calls st) = (lat, Responded answer)"
  shows "callClaudeWithRateLimit e st =
     (Inr answer, st\<lparr>now := now st + int lat, api_calls := Suc (api_calls st),
                       requests := filter (\<lambda>time. now st - time < windowMs) (requests st) @ [now st]\<rparr>)"
proof -
  note a = acquire_room[OF assms(1)]
  from assms(2) have "service e (api_calls (acquire st)) = (lat, Responded answer)"
    by (simp add: a)
  from retryLoop_answered[OF this, of ThrownUndefined] show ?thesis
    unfolding callClaudeWithRateLimit_def callClaudeWithRetry_def by (simp add: a)
qed

lemma callClaudeWithRateLimit_retried:
  assumes "length (filter (\<lambda>time. now st - time < windowMs) (requests st)) < maxRequests"
    and "service e (api_calls st) = (lat1, Threw x)" and "retryable (classify x)"
    and "service e (Suc (api_calls st)) = (lat2, Responded answer)"
  shows "callClaudeWithRateLimit e st =
     (Inr answer, st\<lparr>now := now st + int lat1 + 2000 + int lat2,
                       api_calls := Suc (Suc (api_calls st)),
                       requests := filter (\<lambda>time. now st - time < windowMs) (requests st) @ [now st]\<rparr>)"
proof -
  note a = acquire_room[OF assms(1)]
  from assms(2) have 1: "service e (api_calls (acquire st)) = (lat1, Threw x)"
    by (simp add: a)
  from assms(4) have 2: "service e (Suc (api_calls (acquire st))) = (lat2, Responded answer)"
    by (simp add: a)
  from retryLoop_retried[OF 1 assms(3) 2, of ThrownUndefined] show ?thesis
    unfolding callClaudeWithRateLimit_def callClaudeWithRetry_def by (simp add: a)
qed

lemma analyzeContent_miss_unparsed:
  assumes "10 \<le> length c" "length c \<le> 50000" "hasFramework t"
    and "analysisCache st (getCacheKey e c t) = None"
    and "callClaudeWithRateLimit e st = (Inr answer, st1)"
    and "parseClaudeResponse answer = Inl error"
  shows "analyzeContent e c t st = (Inl (rethrow error), runTimers st1)"
proof -
  from assms(1,2) have "shouldAnalyzeContent c"
    by (simp add: shouldAnalyzeContent_def estimateTokens_def)
  with assms show ?thesis
    by (auto simp: analyzeContent_def Let_def)
qed

lemma runTimers_none_due:
  "\<forall>(due, key) \<in> set (timers st). now st < due \<Longrightarrow> runTimers st = st"
proof -
  assume a: "\<forall>(due, key) \<in> set (timers st). now st < due"
  then have "filter (\<lambda>(due, key). due \<le> now st) (timers st) = []"
    by (auto simp: filter_empty_conv)
  moreover from a have "filter (\<lambda>(due, key). \<not> due \<le> now st) (timers st) = timers st"
    by (auto simp: filter_id_conv)
  ultimately show ?thesis by (simp add: runTimers_def)
qed

lemma hasFramework_process: "hasFramework ''process''"
  by code_simp

lemma sample_key: "getCacheKey (answering a) ''0123456789'' ''process'' = ''process:0123456789process''"
  by (simp add: getCacheKey_def answering_def)

lemma sample_hit_then_miss:
  "run (answering sampleAnswer)
      [Analyze ''0123456789'' ''process'', Tick 899000] (initialState 0) =
     \<lparr>now = 899250, api_calls = 1, requests = [0],
       analysisCache = [''process:0123456789process'' \<mapsto> sampleResult],
       timers = [(900250, ''process:0123456789process'')], uuids = 1\<rparr>"
  "run (answering sampleAnswer)
      [Analyze ''0123456789'' ''process'', Tick 899000,
       Analyze ''0123456789'' ''process'', Tick 2000] (initialState 0) =
     \<lparr>now = 901250, api_calls = 1, requests = [0],
       analysisCache = Map.empty, timers = [], uuids = 1\<rparr>"
  "analyzeContent (answering sampleAnswer) ''0123456789'' ''process''
     \<lparr>now = 899250, api_calls = 1, requests = [0],
       analysisCache = [''process:0123456789process'' \<mapsto> sampleResult],
       timers = [(900250, ''process:0123456789process'')], uuids = 1\<rparr> =
   (Inr sampleResult,
     \<lparr>now = 899250, api_calls = 1, requests = [0],
       analysisCache = [''process:0123456789process'' \<mapsto> sampleResult],
       timers = [(900250, ''process:0123456789process'')], uuids = 1\<rparr>)"
proof -
  let ?A = "answering sampleAnswer"
  let ?S2 = "\<lparr>now = 899250, api_calls = 1, requests = [0],
       analysisCache = [''process:0123456789process'' \<mapsto> sampleResult],
       timers = [(900250, ''process:0123456789process'')], uuids = 1\<rparr> :: app_state"
  show r2: "run ?A [Analyze ''0123456789'' ''process'', Tick 899000] (initialState 0) = ?S2"
    by (simp add: run_def sample_first runTimers_def fun_eq_iff)
  show hit: "analyzeContent ?A ''0123456789'' ''process'' ?S2 = (Inr sampleResult, ?S2)"
    by (rule analyzeContent_hit[OF _ _ hasFramework_process]) (simp_all add: sample_key)
  have "run ?A [Analyze ''0123456789'' ''process'', Tick 899000,
       Analyze ''0123456789'' ''process'', Tick 2000] (initialState 0) =
     step ?A (Tick 2000) (snd (analyzeContent ?A ''0123456789'' ''process''
       (run ?A [Analyze ''0123456789'' ''process'', Tick 899000] (initialState 0))))"
    by (simp add: run_def)
  also have "\<dots> = step ?A (Tick 2000) ?S2"
    by (simp only: r2 hit snd_conv)
  also have "\<dots> = \<lparr>now = 901250, api_calls = 1, requests = [0],
       analysisCache = Map.empty, timers = [], uuids = 1\<rparr>"
    by (simp add: runTimers_def fun_eq_iff)
  finally show "run ?A [Analyze ''0123456789'' ''process'', Tick 899000,
       Analyze ''0123456789'' ''process'', Tick 2000] (initialState 0) =
     \<lparr>now = 901250, api_calls = 1, requests = [0],
       analysisCache = Map.empty, timers = [], uuids = 1\<rparr>" .
qed

lemma scripted_env:
  "service (scripted outcomes) n =
     (250, if n < length outcomes then outcomes ! n else Responded sampleAnswer)"
  "md5hex (scripted outcomes) = (\<lambda>s. s)"
  "randomUUID (scripted outcomes) n = ''00000000-0000-4000-8000-000000000000''"
  by (simp_all add: scripted_def)

lemma answering_env:
  "service (answering a) n = (250, Responded a)"
  "md5hex (answering a) = (\<lambda>s. s)"
  "randomUUID (answering a) n = ''00000000-0000-4000-8000-000000000000''"
  by (simp_all add: answering_def)

lemma analyzeStart_miss:
  "10 \<le> length c \<Longrightarrow> length c \<le> 50000 \<Longrightarrow> hasFramework t \<Longrightarrow>
   analysisCache st (getCacheKey e c t) = None \<Longrightarrow>
   analyzeStart e c t st = Awaiting (getCacheKey e c t) (now st)"
  by (auto simp: analyzeStart_def shouldAnalyzeContent_def estimateTokens_def)

lemma sample_resumed:
  assumes "randomUUID e (uuids st2) = ''00000000-0000-4000-8000-000000000000''"
  shows "analyzeResume e ''process'' key start (Inr sampleAnswer) st2 =
     (Inr (sampleResult\<lparr>processingTime := of_int (now st2 - start) / 1000, timestamp := now st2\<rparr>),
      st2\<lparr>analysisCache := (analysisCache st2)
             (key \<mapsto> sampleResult\<lparr>processingTime := of_int (now st2 - start) / 1000,
                                   timestamp := now st2\<rparr>),
          timers := timers st2 @ [(now st2 + ttlMs, key)],
          uuids := Suc (uuids st2)\<rparr>)"
  using assms
  by (simp add: analyzeResume_def sample_parse sample_validate sampleResult_def notesOrEmpty_def
      Let_def)

lemma sample_stored:
  assumes key: "getCacheKey e ''0123456789'' ''process'' = key"
    and uuid: "\<And>n. randomUUID e n = ''00000000-0000-4000-8000-000000000000''"
    and miss: "analysisCache st key = None"
    and call: "callClaudeWithRateLimit e st = (Inr sampleAnswer, st1)"
    and quiet: "\<forall>(due, key) \<in> set (timers st1). now st1 < due"
  shows "analyzeContent e ''0123456789'' ''process'' st =
     (Inr (sampleResult\<lparr>processingTime := of_int (now st1 - now st) / 1000, timestamp := now st1\<rparr>),
      st1\<lparr>analysisCache := (analysisCache st1)
             (key \<mapsto> sampleResult\<lparr>processingTime := of_int (now st1 - now st) / 1000,
                                   timestamp := now st1\<rparr>),
          timers := timers st1 @ [(now st1 + ttlMs, key)],
          uuids := Suc (uuids st1)\<rparr>)"
proof -
  from miss key have m: "analysisCache st (getCacheKey e ''0123456789'' ''process'') = None"
    by simp
  have start: "analyzeStart e ''0123456789'' ''process'' st = Awaiting key (now st)"
    using analyzeStart_miss[OF _ _ hasFramework_process m] key by simp
  show ?thesis
    by (simp add: analyzeContent_parts start call runTimers_none_due[OF quiet]
        sample_resumed[OF uuid])
qed

lemma sample_expired:
  "fst (analyzeContent (answering sampleAnswer) ''0123456789'' ''process''
     (run (answering sampleAnswer)
        [Analyze ''0123456789'' ''process'', Tick 899000,
         Analyze ''0123456789'' ''process'', Tick 2000] (initialState 0))) =
   Inr (sampleResult\<lparr>timestamp := 901500\<rparr>)"
  "api_calls (snd (analyzeContent (answering sampleAnswer) ''0123456789'' ''process''
     (run (answering sampleAnswer)
        [Analyze ''0123456789'' ''process'', Tick 899000,
         Analyze ''0123456789'' ''process'', Tick 2000] (initialState 0)))) = 2"
proof -
  let ?A = "answering sampleAnswer"
  let ?S3 = "\<lparr>now = 901250, api_calls = 1, requests = [0],
       analysisCache = Map.empty, timers = [], uuids = 1\<rparr> :: app_state"
  have call: "callClaudeWithRateLimit ?A ?S3 =
      (Inr sampleAnswer, ?S3\<lparr>now := 901500, api_calls := 2, requests := [901250]\<rparr>)"
    using callClaudeWithRateLimit_answered[of ?S3 ?A 250 sampleAnswer]
    by (simp add: answering_env maxRequests_def windowMs_def)
  have "analyzeContent ?A ''0123456789'' ''process'' ?S3 =
     (Inr (sampleResult\<lparr>processingTime := of_int (901500 - 901250) / 1000, timestamp := 901500\<rparr>),
      ?S3\<lparr>now := 901500, api_calls := 2, requests := [901250],
          analysisCache := [''process:0123456789process'' \<mapsto>
             sampleResult\<lparr>processingTime := of_int (901500 - 901250) / 1000,
                                   timestamp := 901500\<rparr>],
          timers := [(901500 + ttlMs, ''process:0123456789process'')],
          uuids := 2\<rparr>)"
    using sample_stored[OF sample_key answering_env(3) _ call] by simp
  then have r: "fst (analyzeContent ?A ''0123456789'' ''process'' ?S3) =
        Inr (sampleResult\<lparr>timestamp := 901500\<rparr>)"
    and c: "api_calls (snd (analyzeContent ?A ''0123456789'' ''process'' ?S3)) = 2"
    by (simp_all add: sampleResult_def)
  from r show "fst (analyzeContent ?A ''0123456789'' ''process''
     (run ?A [Analyze ''0123456789'' ''process'', Tick 899000,
         Analyze ''0123456789'' ''process'', Tick 2000] (initialState 0))) =
   Inr (sampleResult\<lparr>timestamp := 901500\<rparr>)"
    by (simp only: sample_hit_then_miss(2))
  from c show "api_calls (snd (analyzeContent ?A ''0123456789'' ''process''
     (run ?A [Analyze ''0123456789'' ''process'', Tick 899000,
         Analyze ''0123456789'' ''process'', Tick 2000] (initialState 0)))) = 2"
    by (simp only: sample_hit_then_miss(2))
qed

lemma scripted_key:
  "getCacheKey (scripted outcomes) ''0123456789'' ''process'' = ''process:0123456789process''"
  by (simp add: getCacheKey_def scripted_def)

lemma no_json_parse:
  "parseClaudeResponse ''no json'' = Inl (PlainError ''No valid JSON found in response'')"
  by code_simp

lemma sample_failed_first:
  "analyzeContent (scripted [Responded ''no json'']) ''0123456789'' ''process'' (initialState 0) =
     (Inl (AnalysisError ''Analysis failed: No valid JSON found in response''),
      \<lparr>now = 250, api_calls = 1, requests = [0],
        analysisCache = Map.empty, timers = [], uuids = 0\<rparr>)"
proof -
  let ?F = "scripted [Responded ''no json'']"
  have call: "callClaudeWithRateLimit ?F (initialState 0) =
      (Inr ''no json'', (initialState 0)\<lparr>now := 250, api_calls := 1, requests := [0]\<rparr>)"
    using callClaudeWithRateLimit_answered[of "initialState 0" ?F 250 "''no json''"]
    by (simp add: scripted_env maxRequests_def windowMs_def initialState_def)
  have miss: "analysisCache (initialState 0) (getCacheKey ?F ''0123456789'' ''process'') = None"
    by (simp add: initialState_def)
  have "(10::nat) \<le> length ''0123456789''" "length ''0123456789'' \<le> 50000" by simp_all
  from analyzeContent_miss_unparsed[OF this hasFramework_process miss call no_json_parse]
  show ?thesis by (simp add: runTimers_def initialState_def)
qed

lemma sample_after_failure:
  "fst (analyzeContent (scripted [Responded ''no json'']) ''0123456789'' ''process''
     (run (scripted [Responded ''no json''])
        [Analyze ''0123456789'' ''process'', Tick 1000] (initialState 0))) =
   Inr (sampleResult\<lparr>timestamp := 1500\<rparr>)"
  "api_calls (snd (analyzeContent (scripted [Responded ''no json'']) ''0123456789'' ''process''
     (run (scripted [Responded ''no json''])
        [Analyze ''0123456789'' ''process'', Tick 1000] (initialState 0)))) = 2"
proof -
  let ?F = "scripted [Responded ''no json'']"
  let ?S = "\<lparr>now = 1250, api_calls = 1, requests = [0],
       analysisCache = Map.empty, timers = [], uuids = 0\<rparr> :: app_state"
  have reach: "run ?F [Analyze ''0123456789'' ''process'', Tick 1000] (initialState 0) = ?S"
    by (simp add: run_def sample_failed_first runTimers_def)
  have call: "callClaudeWithRateLimit ?F ?S =
      (Inr sampleAnswer, ?S\<lparr>now := 1500, api_calls := 2, requests := [0, 1250]\<rparr>)"
    using callClaudeWithRateLimit_answered[of ?S ?F 250 sampleAnswer]
    by (simp add: scripted_env maxRequests_def windowMs_def)
  have "analyzeContent ?F ''0123456789'' ''process'' ?S =
     (Inr (sampleResult\<lparr>processingTime := of_int (1500 - 1250) / 1000, timestamp := 1500\<rparr>),
      ?S\<lparr>now := 1500, api_calls := 2, requests := [0, 1250],
          analysisCache := [''process:0123456789process'' \<mapsto>
             sampleResult\<lparr>processingTime := of_int (1500 - 1250) / 1000, timestamp := 1500\<rparr>],
          timers := [(1500 + ttlMs, ''process:0123456789process'')],
          uuids := 1\<rparr>)"
    using sample_stored[OF scripted_key scripted_env(3) _ call] by simp
  then have r: "fst (analyzeContent ?F ''0123456789'' ''process'' ?S) =
        Inr (sampleResult\<lparr>timestamp := 1500\<rparr>)"
    and c: "api_calls (snd (analyzeContent ?F ''0123456789'' ''process'' ?S)) = 2"
    by (simp_all add: sampleResult_def)
  from r show "fst (analyzeContent ?F ''0123456789'' ''process''
     (run ?F [Analyze ''0123456789'' ''process'', Tick 1000] (initialState 0))) =
   Inr (sampleResult\<lparr>timestamp := 1500\<rparr>)"
    by (simp only: reach)
  from c show "api_calls (snd (analyzeContent ?F ''0123456789'' ''process''
     (run ?F [Analyze ''0123456789'' ''process'', Tick 1000] (initialState 0)))) = 2"
    by (simp only: reach)
qed

lemma sample_retried:
  "fst (analyzeContent (scripted [Threw tooManyRequests]) ''0123456789'' ''process''
     (initialState 0)) =
   Inr (sampleResult\<lparr>processingTime := 5 / 2, timestamp := 2500\<rparr>)"
  "api_calls (snd (analyzeContent (scripted [Threw tooManyRequests]) ''0123456789'' ''process''
     (initialState 0))) = 2"
proof -
  let ?R = "scripted [Threw tooManyRequests]"
  have retry: "retryable (classify tooManyRequests)"
    by (simp add: classify_def tooManyRequests_def Let_def)
  have call: "callClaudeWithRateLimit ?R (initialState 0) =
      (Inr sampleAnswer, (initialState 0)\<lparr>now := 2500, api_calls := 2, requests := [0]\<rparr>)"
    using callClaudeWithRateLimit_retried[of "initialState 0" ?R 250 tooManyRequests 250
        sampleAnswer] retry
    by (simp add: scripted_env maxRequests_def windowMs_def initialState_def)
  have "analyzeContent ?R ''0123456789'' ''process'' (initialState 0) =
     (Inr (sampleResult\<lparr>processingTime := of_int (2500 - 0) / 1000, timestamp := 2500\<rparr>),
      (initialState 0)\<lparr>now := 2500, api_calls := 2, requests := [0],
          analysisCache := [''process:0123456789process'' \<mapsto>
             sampleResult\<lparr>processingTime := of_int (2500 - 0) / 1000, timestamp := 2500\<rparr>],
          timers := [(2500 + ttlMs, ''process:0123456789process'')],
          uuids := 1\<rparr>)"
    using sample_stored[OF scripted_key scripted_env(3) _ call]
    by (simp add: initialState_def)
  then show "fst (analyzeContent ?R ''0123456789'' ''process'' (initialState 0)) =
        Inr (sampleResult\<lparr>processingTime := 5 / 2, timestamp := 2500\<rparr>)"
    and "api_calls (snd (analyzeContent ?R ''0123456789'' ''process'' (initialState 0))) = 2"
    by (simp_all add: sampleResult_def)
qed

lemma sample_overlapped:
  "map_option (\<lambda>(outcomes, st). (outcomes, api_calls st, timers st))
     (analyzeOverlapped (answering sampleAnswer) ''0123456789'' ''process'' 100 (initialState 0)) =
   Some ((Inr sampleResult, Inr (sampleResult\<lparr>timestamp := 350\<rparr>)), 2,
         [(900250, ''process:0123456789process''), (900350, ''process:0123456789process'')])"
proof -
  let ?A = "answering sampleAnswer"
  let ?K = "''process:0123456789process''"
  let ?arrival = "\<lparr>now = 100, api_calls = 1, requests = [0],
       analysisCache = Map.empty, timers = [], uuids = 0\<rparr> :: app_state"
  have start1: "analyzeStart ?A ''0123456789'' ''process'' (initialState 0) = Awaiting ?K 0"
    using analyzeStart_miss[OF _ _ hasFramework_process, of "''0123456789''" "initialState 0" ?A]
    by (simp add: sample_key initialState_def)
  have arrival: "runTimers ((initialState 0)\<lparr>now := 250, api_calls := 1, requests := [0]\<rparr>
      \<lparr>now := now (initialState 0) + int 100\<rparr>) = ?arrival"
    by (simp add: runTimers_def initialState_def)
  have start2: "analyzeStart ?A ''0123456789'' ''process'' ?arrival = Awaiting ?K 100"
    using analyzeStart_miss[OF _ _ hasFramework_process, of "''0123456789''" ?arrival ?A]
    by (simp add: sample_key)
  have call2: "callClaudeWithRateLimit ?A ?arrival =
      (Inr sampleAnswer, ?arrival\<lparr>now := 350, api_calls := 2, requests := [0, 100]\<rparr>)"
    using callClaudeWithRateLimit_answered[of ?arrival ?A 250 sampleAnswer]
    by (simp add: answering_env maxRequests_def windowMs_def)
  have resume1: "resumeAt ?A ''process'' ?K 0 (Inr sampleAnswer) 250
      (?arrival\<lparr>now := 350, api_calls := 2, requests := [0, 100]\<rparr>) =
      (Inr sampleResult,
       \<lparr>now = 250, api_calls = 2, requests = [0, 100],
        analysisCache = [?K \<mapsto> sampleResult], timers = [(900250, ?K)], uuids = 1\<rparr>)"
    by (simp add: resumeAt_def runTimers_def sample_resumed[OF answering_env(3)] ttlMs_def
        sampleResult_def fun_eq_iff)
  have resume2: "resumeAt ?A ''process'' ?K 100 (Inr sampleAnswer) 350
      \<lparr>now = 250, api_calls = 2, requests = [0, 100],
        analysisCache = [?K \<mapsto> sampleResult], timers = [(900250, ?K)], uuids = 1\<rparr> =
      (Inr (sampleResult\<lparr>timestamp := 350\<rparr>),
       \<lparr>now = 350, api_calls = 2, requests = [0, 100],
        analysisCache = [?K \<mapsto> sampleResult\<lparr>timestamp := 350\<rparr>],
        timers = [(900250, ?K), (900350, ?K)], uuids = 2\<rparr>)"
    by (simp add: resumeAt_def runTimers_def sample_resumed[OF answering_env(3)] ttlMs_def
        sampleResult_def fun_eq_iff)
  have "analyzeOverlapped ?A ''0123456789'' ''process'' 100 (initialState 0) =
      Some ((Inr sampleResult, Inr (sampleResult\<lparr>timestamp := 350\<rparr>)),
       \<lparr>now = 350, api_calls = 2, requests = [0, 100],
        analysisCache = [?K \<mapsto> sampleResult\<lparr>timestamp := 350\<rparr>],
        timers = [(900250, ?K), (900350, ?K)], uuids = 2\<rparr>)"
    unfolding analyzeOverlapped_def
    using resume1 resume2
    by (simp only: start1 started.case answering_call prod.case arrival Let_def start2 call2)
       (simp add: initialState_def)
  then show ?thesis by simp
qed

text \<open>
  Claim C5, for calls that run one after the other from the start of the process, so that no
  call is made while another awaits the service. When a call of \<open>analyzeContent\<close> returns a
  result, the cache holds that result under the key of the content and the content type
  until a time \<open>due\<close>, which lies at most the TTL of 15 minutes after the return. If the call
  found nothing in the cache, it called the service, at least once and at most three times,
  and stored the result, and \<open>due\<close> is exactly 15 minutes after its return; if it found the
  entry, it changed nothing. Whatever is analysed in between, a call with the same content and
  content type that starts before \<open>due\<close> returns the same result and changes nothing in the
  state, so it makes no call of the service. The key is a function of the content and the
  content type.
\<close>

theorem analyzeContent_cached_within_ttl:
  assumes reach: "s0 = run e before (initialState t0)"
    and first: "analyzeContent e content t s0 = (Inr result, s1)"
    and later: "s2 = run e between s1"
  shows "\<exists>due. (due, getCacheKey e content t) \<in> set (timers s1) \<and>
           now s1 < due \<and> due \<le> now s1 + ttlMs \<and>
           (analysisCache s0 (getCacheKey e content t) = None \<longrightarrow>
              due = now s1 + ttlMs \<and>
              api_calls s0 < api_calls s1 \<and> api_calls s1 \<le> api_calls s0 + 3) \<and>
           (analysisCache s0 (getCacheKey e content t) \<noteq> None \<longrightarrow> s1 = s0) \<and>
           (now s2 < due \<longrightarrow>
              analyzeContent e content t s2 = (Inr result, s2) \<and>
              api_calls (snd (analyzeContent e content t s2)) = api_calls s2)"
proof -
  let ?k = "getCacheKey e content t"
  from reach have inv0: "cacheInv s0" by (simp add: run_inv initialState_inv)
  from reach have b0: "\<forall>(due, key) \<in> set (timers s0). due \<le> now s0 + ttlMs"
    by (simp add: run_bounded initialState_bounded)
  from analyzeContent_inv[OF inv0, of e content t] first have inv1: "cacheInv s1" by simp
  from analyzeContent_bounded[OF b0, of e content t] first
  have b1: "\<forall>(due, key) \<in> set (timers s1). due \<le> now s1 + ttlMs" by simp
  have both: "analysisCache s1 ?k = Some result \<and>
        (analysisCache s0 ?k = None \<longrightarrow>
          (now s1 + ttlMs, ?k) \<in> set (timers s1) \<and>
          api_calls s0 < api_calls s1 \<and> api_calls s1 \<le> api_calls s0 + 3) \<and>
        (analysisCache s0 ?k \<noteq> None \<longrightarrow> s1 = s0)"
  proof (cases rule: analyzeContent_cases[where e=e and c=content and t=t and st=s0])
    case unchanged
    with first have same: "s1 = s0" and hit: "analysisCache s0 ?k \<noteq> None" by auto
    from analyzeContent_success_inputs[OF first] hit first
    have "analysisCache s0 ?k = Some result" by (auto simp: analyzeContent_hit)
    with same hit show ?thesis by simp
  next
    case (failed res st1 err)
    with first show ?thesis by simp
  next
    case (stored answer st1 result')
    from callClaudeWithRateLimit_calls[OF stored(1)]
    have "api_calls s0 < api_calls st1 \<and> api_calls st1 \<le> api_calls s0 + 3" .
    with stored first show ?thesis
      by (auto simp: runTimers_now runTimers_api_calls)
  qed
  then have c1: "analysisCache s1 ?k = Some result"
    and how: "(analysisCache s0 ?k = None \<longrightarrow>
          (now s1 + ttlMs, ?k) \<in> set (timers s1) \<and>
          api_calls s0 < api_calls s1 \<and> api_calls s1 \<le> api_calls s0 + 3) \<and>
        (analysisCache s0 ?k \<noteq> None \<longrightarrow> s1 = s0)" by simp_all
  from c1 inv1 obtain due where d1: "(due, ?k) \<in> set (timers s1)"
    unfolding cacheInv_def by (metis (no_types, lifting) image_iff option.distinct(1) prod.collapse
        snd_conv)
  from inv1 d1 have fut: "now s1 < due" unfolding cacheInv_def by auto
  from b1 d1 have bnd: "due \<le> now s1 + ttlMs" by auto
  from inv1 have dist: "distinct (map snd (timers s1))" by (simp add: cacheInv_def)
  have exact: "due = now s1 + ttlMs" if "analysisCache s0 ?k = None"
    using how that same_key_same_due[OF dist d1] by blast
  have hit: "analyzeContent e content t s2 = (Inr result, s2) \<and>
      api_calls (snd (analyzeContent e content t s2)) = api_calls s2" if "now s2 < due"
  proof -
    from that later have "now (run e between s1) < due" by simp
    from run_keeps[OF inv1 c1 d1 this] later have "analysisCache s2 ?k = Some result" by simp
    with analyzeContent_success_inputs[OF first] show ?thesis
      by (simp add: analyzeContent_hit)
  qed
  from how have calls: "analysisCache s0 ?k = None \<longrightarrow>
      api_calls s0 < api_calls s1 \<and> api_calls s1 \<le> api_calls s0 + 3"
    and same: "analysisCache s0 ?k \<noteq> None \<longrightarrow> s1 = s0" by simp_all
  show ?thesis
  proof (rule exI[of _ due], intro conjI impI)
    show "(due, ?k) \<in> set (timers s1)" by (rule d1)
    show "now s1 < due" by (rule fut)
    show "due \<le> now s1 + ttlMs" by (rule bnd)
    show "due = now s1 + ttlMs" if "analysisCache s0 ?k = None" using that by (rule exact)
    show "api_calls s0 < api_calls s1" if "analysisCache s0 ?k = None" using that calls by simp
    show "api_calls s1 \<le> api_calls s0 + 3" if "analysisCache s0 ?k = None"
      using that calls by simp
    show "s1 = s0" if "analysisCache s0 ?k \<noteq> None" using that same by simp
    show "analyzeContent e content t s2 = (Inr result, s2)" if "now s2 < due"
      using hit[OF that] by simp
    show "api_calls (snd (analyzeContent e content t s2)) = api_calls s2" if "now s2 < due"
      using hit[OF that] by simp
  qed
qed

theorem analyzeContent_cached_within_ttl_witness:
  "analyzeContent (answering sampleAnswer) ''0123456789'' ''process''
     (run (answering sampleAnswer) [Tick 60000]
        (snd (analyzeContent (answering sampleAnswer) ''0123456789'' ''process''
               (initialState 0)))) =
     (Inr sampleResult,
      run (answering sampleAnswer) [Tick 60000]
        (snd (analyzeContent (answering sampleAnswer) ''0123456789'' ''process''
               (initialState 0)))) \<and>
   api_calls (snd (analyzeContent (answering sampleAnswer) ''0123456789'' ''process''
     (run (answering sampleAnswer) [Tick 60000]
        (snd (analyzeContent (answering sampleAnswer) ''0123456789'' ''process''
               (initialState 0)))))) = 1 \<and>
   api_calls (snd (analyzeContent (answering sampleAnswer) ''0123456789'' ''process''
               (initialState 0))) = 1"
proof -
  let ?e = "answering sampleAnswer"
  let ?c = "''0123456789''"
  let ?t = "''process''"
  let ?s0 = "run ?e [] (initialState 0)"
  let ?s1 = "snd (analyzeContent ?e ?c ?t (initialState 0))"
  let ?s2 = "run ?e [Tick 60000] ?s1"
  have s0: "?s0 = initialState 0" by (simp add: run_def)
  have first: "analyzeContent ?e ?c ?t ?s0 = (Inr sampleResult, ?s1)"
    by (simp add: s0 sample_first)
  have miss: "analysisCache ?s0 (getCacheKey ?e ?c ?t) = None"
    by (simp add: run_def initialState_def)
  have calls0: "api_calls ?s0 = 0" by (simp add: run_def initialState_def)
  have now1: "now ?s1 = 250" and calls1: "api_calls ?s1 = 1" by (simp_all add: sample_first)
  have now2: "now ?s2 = 60250" and calls2: "api_calls ?s2 = 1"
    by (simp_all add: sample_first run_def runTimers_def)
  from analyzeContent_cached_within_ttl[OF refl first refl, of "[Tick 60000]"] miss
  obtain due where "due = now ?s1 + ttlMs"
    and "now ?s2 < due \<longrightarrow>
      analyzeContent ?e ?c ?t ?s2 = (Inr sampleResult, ?s2) \<and>
      api_calls (snd (analyzeContent ?e ?c ?t ?s2)) = api_calls ?s2"
    by blast
  with now1 now2 calls2
  have "analyzeContent ?e ?c ?t ?s2 = (Inr sampleResult, ?s2)"
    and "api_calls (snd (analyzeContent ?e ?c ?t ?s2)) = 1"
    by (simp_all add: ttlMs_def)
  with calls1 show ?thesis by simp
qed

text \<open>
  Claim C5 as it is worded has any two calls with the same content and content type within
  15 minutes call the service at most once, the second returning the cached result. Four
  runs show otherwise. In the first, the first call fails, on an answer that is no JSON, so
  nothing is cached, and the second call, a second later, calls the service again. In the
  second, one call alone calls the service twice, as the first answer is a 429. In the third,
  the entry expires 15 minutes after it was stored, not after it was last read: a call is
  answered from the cache at 899250 ms, and the next call, two seconds later, finds nothing
  and calls the service. In the fourth, two calls overlap: both find nothing, both call the
  service, each returns a result of its own, and two callbacks are pending for the one key.
\<close>

theorem analyzeContent_second_call_counterexample:
  "(fst (analyzeContent (scripted [Responded ''no json'']) ''0123456789'' ''process''
          (initialState 0)) =
      Inl (AnalysisError ''Analysis failed: No valid JSON found in response'') \<and>
    api_calls (snd (analyzeContent (scripted [Responded ''no json'']) ''0123456789'' ''process''
          (initialState 0))) = 1 \<and>
    fst (analyzeContent (scripted [Responded ''no json'']) ''0123456789'' ''process''
          (run (scripted [Responded ''no json''])
             [Analyze ''0123456789'' ''process'', Tick 1000] (initialState 0))) =
      Inr (sampleResult\<lparr>timestamp := 1500\<rparr>) \<and>
    api_calls (snd (analyzeContent (scripted [Responded ''no json'']) ''0123456789'' ''process''
          (run (scripted [Responded ''no json''])
             [Analyze ''0123456789'' ''process'', Tick 1000] (initialState 0)))) = 2) \<and>
   (fst (analyzeContent (scripted [Threw tooManyRequests]) ''0123456789'' ''process''
          (initialState 0)) =
      Inr (sampleResult\<lparr>processingTime := 5 / 2, timestamp := 2500\<rparr>) \<and>
    api_calls (snd (analyzeContent (scripted [Threw tooManyRequests]) ''0123456789'' ''process''
          (initialState 0))) = 2) \<and>
   (now (run (answering sampleAnswer)
          [Analyze ''0123456789'' ''process'', Tick 899000] (initialState 0)) = 899250 \<and>
    analyzeContent (answering sampleAnswer) ''0123456789'' ''process''
       (run (answering sampleAnswer)
          [Analyze ''0123456789'' ''process'', Tick 899000] (initialState 0)) =
      (Inr sampleResult,
       run (answering sampleAnswer)
          [Analyze ''0123456789'' ''process'', Tick 899000] (initialState 0)) \<and>
    now (run (answering sampleAnswer)
          [Analyze ''0123456789'' ''process'', Tick 899000,
           Analyze ''0123456789'' ''process'', Tick 2000] (initialState 0)) = 901250 \<and>
    fst (analyzeContent (answering sampleAnswer) ''0123456789'' ''process''
          (run (answering sampleAnswer)
             [Analyze ''0123456789'' ''process'', Tick 899000,
              Analyze ''0123456789'' ''process'', Tick 2000] (initialState 0))) =
      Inr (sampleResult\<lparr>timestamp := 901500\<rparr>) \<and>
    api_calls (snd (analyzeContent (answering sampleAnswer) ''0123456789'' ''process''
          (run (answering sampleAnswer)
             [Analyze ''0123456789'' ''process'', Tick 899000,
              Analyze ''0123456789'' ''process'', Tick 2000] (initialState 0)))) = 2) \<and>
   map_option (\<lambda>(outcomes, st). (outcomes, api_calls st, timers st))
     (analyzeOverlapped (answering sampleAnswer) ''0123456789'' ''process'' 100
        (initialState 0)) =
     Some ((Inr sampleResult, Inr (sampleResult\<lparr>timestamp := 350\<rparr>)), 2,
           [(900250, ''process:0123456789process''), (900350, ''process:0123456789process'')])"
proof (intro conjI)
  show "fst (analyzeContent (scripted [Responded ''no json'']) ''0123456789'' ''process''
          (initialState 0)) =
      Inl (AnalysisError ''Analysis failed: No valid JSON found in response'')"
    by (simp add: sample_failed_first)
  show "api_calls (snd (analyzeContent (scripted [Responded ''no json'']) ''0123456789''
          ''process'' (initialState 0))) = 1"
    by (simp add: sample_failed_first)
  show "now (run (answering sampleAnswer)
          [Analyze ''0123456789'' ''process'', Tick 899000] (initialState 0)) = 899250"
    by (simp only: sample_hit_then_miss(1)) simp
  show "analyzeContent (answering sampleAnswer) ''0123456789'' ''process''
       (run (answering sampleAnswer)
          [Analyze ''0123456789'' ''process'', Tick 899000] (initialState 0)) =
      (Inr sampleResult,
       run (answering sampleAnswer)
          [Analyze ''0123456789'' ''process'', Tick 899000] (initialState 0))"
    by (simp only: sample_hit_then_miss(1) sample_hit_then_miss(3))
  show "now (run (answering sampleAnswer)
          [Analyze ''0123456789'' ''process'', Tick 899000,
           Analyze ''0123456789'' ''process'', Tick 2000] (initialState 0)) = 901250"
    by (simp only: sample_hit_then_miss(2)) simp
qed (rule sample_after_failure sample_retried sample_expired sample_overlapped)+


section \<open>Updating a skill\<close>

lemma find_map_same:
  "(\<And>x. P (f x) = P x) \<Longrightarrow> find P (map f xs) = map_option f (find P xs)"
  by (induction xs) simp_all

lemma updateSkill_empty_description:
  "updateSkill db i (v\<lparr>req_description := Some []\<rparr>) t =
   updateSkill db i (v\<lparr>req_description := None\<rparr>) t"
  by (simp add: updateSkill_def cong del: if_weak_cong option.case_cong_weak)

lemma updateSkill_empty_name:
  "updateSkill db i (v\<lparr>req_name := Some []\<rparr>) t = updateSkill db i (v\<lparr>req_name := None\<rparr>) t"
  by (simp add: updateSkill_def truthyString_def cong del: if_weak_cong option.case_cong_weak)

lemma updateSkill_empty_mainContent:
  "updateSkill db i (v\<lparr>req_mainContent := Some []\<rparr>) t =
   updateSkill db i (v\<lparr>req_mainContent := None\<rparr>) t"
  by (simp add: updateSkill_def cong del: if_weak_cong option.case_cong_weak)

lemma schema_description:
  "UpdateSkillRequestSchema (JObj (AList.update ''description'' (JStr []) kvs)) =
   map_option (\<lambda>v. v\<lparr>req_description := Some []\<rparr>)
     (UpdateSkillRequestSchema (JObj (AList.delete ''description'' kvs)))"
  by (simp add: UpdateSkillRequestSchema_def update_conv' delete_conv' optionalString_def
      split: option.splits)

lemma schema_without_description:
  "UpdateSkillRequestSchema (JObj (AList.delete ''description'' kvs)) = Some v \<Longrightarrow>
   req_description v = None"
  by (auto simp: UpdateSkillRequestSchema_def delete_conv' optionalString_def
      split: option.splits)

lemma putSkill_empty_description:
  "putSkill db skillId (JObj (AList.update ''description'' (JStr []) kvs)) t =
   putSkill db skillId (JObj (AList.delete ''description'' kvs)) t"
proof (cases "UpdateSkillRequestSchema (JObj (AList.delete ''description'' kvs))")
  case None
  then show ?thesis by (cases skillId) (simp_all add: putSkill_def schema_description)
next
  case (Some v)
  from schema_without_description[OF Some] have "v\<lparr>req_description := None\<rparr> = v" by simp
  with updateSkill_empty_description[of db _ v t]
  have "updateSkill db i (v\<lparr>req_description := Some []\<rparr>) t = updateSkill db i v t" for i
    by simp
  with Some show ?thesis
    by (cases skillId)
       (simp_all add: putSkill_def schema_description cong del: option.case_cong_weak)
qed


lemma selectSkill_after_update:
  assumes "\<And>row. row_id (f row) = row_id row"
  shows "selectSkill (db\<lparr>skill_versions := vs, skill_versions_seq := n,
            skills := map (\<lambda>row. if row_id row \<noteq> i then row else f row) (skills db)\<rparr>) j =
         map_option (\<lambda>row. if row_id row \<noteq> i then row else f row) (selectSkill db j)"
  unfolding selectSkill_def using assms by (simp add: find_map_same)

lemma updateSkill_effect:
  assumes old: "selectSkill db i = Some old"
    and ok: "updateSkill db i v t = Inr (version, db')"
  shows "version = Suc (row_version old)"
    and "map_option row_version (selectSkill db' i) = Some (Suc (row_version old))"
    and "snapshotsOf db' i = snapshotsOf db i @
          [\<lparr>ver_id = Suc (skill_versions_seq db), ver_skill_id = i,
            ver_version = row_version old, ver_main_content = row_main_content old,
            ver_references = row_references old, ver_metadata = row_metadata old,
            ver_created_at = t\<rparr>]"
    and "\<not> truthyString (req_description v) \<Longrightarrow>
         map_option row_description (selectSkill db' i) = Some (row_description old)"
    and "\<not> truthyString (req_name v) \<Longrightarrow>
         map_option row_name (selectSkill db' i) = Some (row_name old)"
    and "\<not> truthyString (req_mainContent v) \<Longrightarrow>
         map_option row_main_content (selectSkill db' i) = Some (row_main_content old)"
proof -
  from old have idold: "row_id old = i"
    by (auto simp: selectSkill_def find_Some_iff)
  from old ok show "version = Suc (row_version old)"
    by (auto simp: updateSkill_def split: if_splits)
  from old ok have db': "db' = db\<lparr>skill_versions := skill_versions db @
       [\<lparr>ver_id = Suc (skill_versions_seq db), ver_skill_id = i,
         ver_version = row_version old, ver_main_content = row_main_content old,
         ver_references = row_references old, ver_metadata = row_metadata old,
         ver_created_at = t\<rparr>],
     skill_versions_seq := Suc (skill_versions_seq db),
     skills := map (\<lambda>row.
       if row_id row \<noteq> i then row
       else row\<lparr>row_name :=
                  (case req_name v of
                     None \<Rightarrow> row_name row
                   | Some n \<Rightarrow> if n = [] then row_name row else n),
                row_description :=
                  (case req_description v of
                     None \<Rightarrow> row_description row
                   | Some d \<Rightarrow> if d = [] then row_description row else d),
                row_main_content :=
                  (case req_mainContent v of
                     None \<Rightarrow> row_main_content row
                   | Some m \<Rightarrow> if m = [] then row_main_content row else m),
                row_references :=
                  (case req_references v of
                     None \<Rightarrow> row_references row
                   | Some r \<Rightarrow> r),
                row_metadata :=
                  (case req_tags v of
                     None \<Rightarrow> row_metadata row
                   | Some ts \<Rightarrow> setProp (row_metadata old) ''tags'' (JArr (map JStr ts))),
                row_version := Suc (row_version row),
                row_updated_at := t\<rparr>) (skills db)\<rparr>"
    by (auto simp: updateSkill_def split: if_splits)
  show "map_option row_version (selectSkill db' i) = Some (Suc (row_version old))"
    unfolding db' by (subst selectSkill_after_update) (simp_all add: old idold)
  show "snapshotsOf db' i = snapshotsOf db i @
          [\<lparr>ver_id = Suc (skill_versions_seq db), ver_skill_id = i,
            ver_version = row_version old, ver_main_content = row_main_content old,
            ver_references = row_references old, ver_metadata = row_metadata old,
            ver_created_at = t\<rparr>]"
    unfolding db' by (simp add: snapshotsOf_def)
  show "map_option row_description (selectSkill db' i) = Some (row_description old)"
    if "\<not> truthyString (req_description v)"
    unfolding db' using that
    by (subst selectSkill_after_update)
       (auto simp: old idold truthyString_def split: option.splits)
  show "map_option row_name (selectSkill db' i) = Some (row_name old)"
    if "\<not> truthyString (req_name v)"
    unfolding db' using that
    by (subst selectSkill_after_update)
       (auto simp: old idold truthyString_def split: option.splits)
  show "map_option row_main_content (selectSkill db' i) = Some (row_main_content old)"
    if "\<not> truthyString (req_mainContent v)"
    unfolding db' using that
    by (subst selectSkill_after_update)
       (auto simp: old idold truthyString_def split: option.splits)
qed

text \<open>
  Claim C10. An update in which \<open>description\<close> is the empty text does what the same
  update without \<open>description\<close> does, at the route and in the transaction; the same holds
  in the transaction for an empty \<open>name\<close> and an empty \<open>mainContent\<close> (which the schema of
  the route does not let through). When such an update succeeds, the stored description is
  the one from before, the version has grown by one and the snapshot of the old row has been
  written.
\<close>

theorem putSkill_falsy_field_ignored:
  "putSkill db skillId (JObj (AList.update ''description'' (JStr []) kvs)) t =
     putSkill db skillId (JObj (AList.delete ''description'' kvs)) t \<and>
   updateSkill db i (v\<lparr>req_description := Some []\<rparr>) t =
     updateSkill db i (v\<lparr>req_description := None\<rparr>) t \<and>
   updateSkill db i (v\<lparr>req_name := Some []\<rparr>) t =
     updateSkill db i (v\<lparr>req_name := None\<rparr>) t \<and>
   updateSkill db i (v\<lparr>req_mainContent := Some []\<rparr>) t =
     updateSkill db i (v\<lparr>req_mainContent := None\<rparr>) t \<and>
   (selectSkill db i = Some old \<and>
    updateSkill db i (v\<lparr>req_description := Some []\<rparr>) t = Inr (version, db') \<longrightarrow>
      version = Suc (row_version old) \<and>
      map_option row_description (selectSkill db' i) = Some (row_description old) \<and>
      map_option row_version (selectSkill db' i) = Some (Suc (row_version old)) \<and>
      snapshotsOf db' i = snapshotsOf db i @
        [\<lparr>ver_id = Suc (skill_versions_seq db), ver_skill_id = i,
          ver_version = row_version old, ver_main_content = row_main_content old,
          ver_references = row_references old, ver_metadata = row_metadata old,
          ver_created_at = t\<rparr>])"
proof (intro conjI impI)
  assume a: "selectSkill db i = Some old \<and>
    updateSkill db i (v\<lparr>req_description := Some []\<rparr>) t = Inr (version, db')"
  then have old: "selectSkill db i = Some old"
    and ok: "updateSkill db i (v\<lparr>req_description := Some []\<rparr>) t = Inr (version, db')"
    by simp_all
  have falsy: "\<not> truthyString (req_description (v\<lparr>req_description := Some []\<rparr>))"
    by (simp add: truthyString_def)
  from updateSkill_effect(1)[OF old ok] show "version = Suc (row_version old)" .
  from updateSkill_effect(4)[OF old ok falsy]
  show "map_option row_description (selectSkill db' i) = Some (row_description old)" .
  from updateSkill_effect(2)[OF old ok]
  show "map_option row_version (selectSkill db' i) = Some (Suc (row_version old))" .
  from updateSkill_effect(3)[OF old ok]
  show "snapshotsOf db' i = snapshotsOf db i @
        [\<lparr>ver_id = Suc (skill_versions_seq db), ver_skill_id = i,
          ver_version = row_version old, ver_main_content = row_main_content old,
          ver_references = row_references old, ver_metadata = row_metadata old,
          ver_created_at = t\<rparr>]" .
qed (rule putSkill_empty_description updateSkill_empty_description updateSkill_empty_name
      updateSkill_empty_mainContent)+

theorem putSkill_falsy_field_ignored_witness:
  "\<exists>db'. updateSkill sampleStore 1 (onlyDescription []) 5 = Inr (2, db') \<and>
     map_option row_description (selectSkill db' 1) = Some ''A sample skill'' \<and>
     map_option row_version (selectSkill db' 1) = Some 2 \<and>
     map ver_version (snapshotsOf db' 1) = [1]"
proof -
  have old: "selectSkill sampleStore 1 = Some sampleRow"
    by (simp add: selectSkill_def sampleStore_def sampleRow_def)
  have "map_sum (\<lambda>error. ()) fst (updateSkill sampleStore 1 (onlyDescription []) 5) = Inr 2"
    by code_simp
  then obtain db' where ok: "updateSkill sampleStore 1 (onlyDescription []) 5 = Inr (2, db')"
    by (cases "updateSkill sampleStore 1 (onlyDescription []) 5") auto
  have v: "(onlyDescription [])\<lparr>req_description := Some []\<rparr> = onlyDescription []"
    by (simp add: onlyDescription_def)
  from ok have ok': "updateSkill sampleStore 1 ((onlyDescription [])\<lparr>req_description := Some []\<rparr>) 5 =
      Inr (2, db')"
    by (simp only: v)
  from putSkill_falsy_field_ignored[where db=sampleStore and i=1 and v="onlyDescription []"
      and old=sampleRow and version=2 and db'=db' and t=5] old ok'
  have "map_option row_description (selectSkill db' 1) = Some (row_description sampleRow)"
    and "map_option row_version (selectSkill db' 1) = Some (Suc (row_version sampleRow))"
    and "snapshotsOf db' 1 = snapshotsOf sampleStore 1 @
        [\<lparr>ver_id = Suc (skill_versions_seq sampleStore), ver_skill_id = 1,
          ver_version = row_version sampleRow, ver_main_content = row_main_content sampleRow,
          ver_references = row_references sampleRow, ver_metadata = row_metadata sampleRow,
          ver_created_at = 5\<rparr>]"
    by blast+
  with ok show ?thesis
    by (auto simp: sampleRow_def sampleStore_def snapshotsOf_def)
qed

section \<open>The name of a stored skill\<close>

text \<open>
  Claim C8 at a concrete run. Creating a skill under the name \<open>"My Skill!!"\<close> stores the
  slug \<open>"my-skill"\<close>. Updating that skill with the name \<open>"My Skill!!"\<close> stores the name as
  it was sent, which is not a slug: the update route does not normalise the name.
\<close>

theorem putSkill_unnormalized_name:
  "map row_name (skills (serveAll plainRuntime
      [(0, GenerateSkill sampleAnalysis ''My Skill!!'' ''process'' None None)]
      (emptyDatabase True))) = [''my-skill''] \<and>
   map row_name (skills (serveAll plainRuntime
      [(0, GenerateSkill sampleAnalysis ''My Skill!!'' ''process'' None None),
       (5, PutSkill (Some 1) (JObj [(''name'', JStr ''My Skill!!'')]))]
      (emptyDatabase True))) = [''My Skill!!''] \<and>
   \<not> isSlug ''My Skill!!''"
  by code_simp

theorem putSkill_unnormalized_name_witness:
  "map row_name (skills (serveAll plainRuntime
      [(0, GenerateSkill sampleAnalysis ''My Skill!!'' ''process'' None None),
       (5, PutSkill (Some 1) (JObj [(''name'', JStr ''My Skill!!'')]))]
      (emptyDatabase True))) = [''My Skill!!'']"
  using putSkill_unnormalized_name by blast

section \<open>The archive of a stored skill\<close>

text \<open>
  Claim C7 at a concrete run. The archive \<open>generateSkill\<close> makes unpacks to the main
  document and the reference documents as rendered. The archive the download route makes for
  the same skill unpacks to an empty \<open>skill.md\<close>: the route hands the main document over
  under the key \<open>SKILL.md\<close>, and \<open>createSkillZip\<close> reads the key \<open>skill.md\<close>.
\<close>

theorem downloadSkill_empty_main_document:
  "map row_main_content (skills (serveAll plainRuntime
      [(0, GenerateSkill sampleAnalysis ''My Skill!!'' ''process'' None None)]
      (emptyDatabase True))) = [''# process.skillMd''] \<and>
   (case downloadSkill (serveAll plainRuntime
      [(0, GenerateSkill sampleAnalysis ''My Skill!!'' ''process'' None None)]
      (emptyDatabase True)) (Some 1) of
      Reply200 (filename, archive) \<Rightarrow> unpack archive
    | _ \<Rightarrow> []) =
     [(''skill.md'', []),
      (''references/practices.md'', ''# process.practicesMd''),
      (''references/structure.md'', ''# process.structureMd''),
      (''references/examples.md'', ''# process.examplesMd'')] \<and>
   (case fst (generateSkill plainRuntime (emptyDatabase True) sampleAnalysis ''My Skill!!''
               ''process'' None None 0) of
      Inr package \<Rightarrow> unpack (pk_zipBuffer package)
    | Inl error \<Rightarrow> []) =
     [(''skill.md'', ''# process.skillMd''),
      (''references/practices.md'', ''# process.practicesMd''),
      (''references/structure.md'', ''# process.structureMd''),
      (''references/examples.md'', ''# process.examplesMd'')]"
  by code_simp


theorem downloadSkill_empty_main_document_witness:
  "(case downloadSkill (serveAll plainRuntime
      [(0, GenerateSkill sampleAnalysis ''My Skill!!'' ''process'' None None)]
      (emptyDatabase True)) (Some 1) of
      Reply200 (filename, archive) \<Rightarrow> unpack archive
    | _ \<Rightarrow> []) =
     [(''skill.md'', []),
      (''references/practices.md'', ''# process.practicesMd''),
      (''references/structure.md'', ''# process.structureMd''),
      (''references/examples.md'', ''# process.examplesMd'')]"
  using downloadSkill_empty_main_document by blast

section \<open>Versions and snapshots\<close>

text \<open>
  What each request does to the store: nothing, or one row more under the next id, or one
  snapshot more and the version of one row one higher, or a change of one row that keeps
  its version, or the removal of one row.
\<close>

lemma saveSkillToDatabase_shape:
  assumes "saveSkillToDatabase db name d ty ver mc refs md t = Inr (i, db')"
  shows "\<exists>row. row_id row = Suc (skills_seq db) \<and> row_version row = ver \<and> row_name row = name \<and>
     \<not> list_ex (\<lambda>r. row_name r = name) (skills db) \<and>
     db' = db\<lparr>skills := skills db @ [row], skills_seq := Suc (skills_seq db)\<rparr>"
proof -
  let ?row = "\<lparr>row_id = Suc (skills_seq db), row_name = name,
                row_description = d, row_skill_type = ty,
                row_version = ver, row_main_content = mc,
                row_references = refs, row_metadata = md,
                row_created_at = t, row_updated_at = t\<rparr>"
  from assms have "\<not> list_ex (\<lambda>r. row_name r = name) (skills db)"
    and "db' = db\<lparr>skills := skills db @ [?row], skills_seq := Suc (skills_seq db)\<rparr>"
    by (auto simp: saveSkillToDatabase_def split: if_splits)
  moreover have "row_id ?row = Suc (skills_seq db) \<and> row_version ?row = ver \<and> row_name ?row = name"
    by simp
  ultimately show ?thesis by blast
qed

lemma generateSkill_shape:
  "snd (generateSkill rt db a n ty d tags t) = db \<or>
   (\<exists>row. row_id row = Suc (skills_seq db) \<and> row_version row = 1 \<and>
      snd (generateSkill rt db a n ty d tags t) =
        db\<lparr>skills := skills db @ [row], skills_seq := Suc (skills_seq db)\<rparr>)"
  unfolding generateSkill_def
  by (auto split: sum.splits option.splits if_splits prod.splits dest!: saveSkillToDatabase_shape)

lemma updateSkill_shape:
  assumes old: "selectSkill db i = Some old"
    and ok: "updateSkill db i v t = Inr (ver, db')"
  shows "\<exists>f snap. (\<forall>row. row_id (f row) = row_id row \<and> row_version (f row) = Suc (row_version row)) \<and>
     ver_skill_id snap = i \<and> ver_version snap = row_version old \<and> ver = Suc (row_version old) \<and>
     db' = db\<lparr>skill_versions := skill_versions db @ [snap],
              skill_versions_seq := Suc (skill_versions_seq db),
              skills := map (\<lambda>row. if row_id row \<noteq> i then row else f row) (skills db)\<rparr>"
proof -
  let ?f = "\<lambda>row. row\<lparr>row_name :=
                  (case req_name v of
                     None \<Rightarrow> row_name row
                   | Some n \<Rightarrow> if n = [] then row_name row else n),
                row_description :=
                  (case req_description v of
                     None \<Rightarrow> row_description row
                   | Some d \<Rightarrow> if d = [] then row_description row else d),
                row_main_content :=
                  (case req_mainContent v of
                     None \<Rightarrow> row_main_content row
                   | Some m \<Rightarrow> if m = [] then row_main_content row else m),
                row_references :=
                  (case req_references v of
                     None \<Rightarrow> row_references row
                   | Some r \<Rightarrow> r),
                row_metadata :=
                  (case req_tags v of
                     None \<Rightarrow> row_metadata row
                   | Some ts \<Rightarrow> setProp (row_metadata old) ''tags'' (JArr (map JStr ts))),
                row_version := Suc (row_version row),
                row_updated_at := t\<rparr>"
  let ?snap = "\<lparr>ver_id = Suc (skill_versions_seq db), ver_skill_id = i,
         ver_version = row_version old, ver_main_content = row_main_content old,
         ver_references = row_references old, ver_metadata = row_metadata old,
         ver_created_at = t\<rparr>"
  from old ok have ver: "ver = Suc (row_version old)" and
    db': "db' = db\<lparr>skill_versions := skill_versions db @ [?snap],
              skill_versions_seq := Suc (skill_versions_seq db),
              skills := map (\<lambda>row. if row_id row \<noteq> i then row else ?f row) (skills db)\<rparr>"
    by (auto simp: updateSkill_def split: if_splits)
  show ?thesis
    by (rule exI[of _ ?f], rule exI[of _ ?snap]) (simp add: ver db')
qed

lemma putSkill_shape:
  "(snd (putSkill db sid body t) = db \<and> (\<forall>i ver. fst (putSkill db sid body t) \<noteq> Reply200 (i, ver))) \<or>
   (\<exists>i old v. sid = Some i \<and> selectSkill db i = Some old \<and>
      updateSkill db i v t = Inr (Suc (row_version old), snd (putSkill db sid body t)) \<and>
      fst (putSkill db sid body t) = Reply200 (i, Suc (row_version old)))"
proof (cases sid)
  case None
  then show ?thesis by (simp add: putSkill_def)
next
  case (Some i)
  show ?thesis
  proof (cases "UpdateSkillRequestSchema body")
    case None
    with Some show ?thesis by (simp add: putSkill_def)
  next
    case v: (Some v)
    show ?thesis
    proof (cases "selectSkill db i")
      case None
      with Some v show ?thesis by (simp add: putSkill_def)
    next
      case old: (Some old)
      show ?thesis
      proof (cases "updateSkill db i v t")
        case (Inl error)
        with Some v old show ?thesis by (simp add: putSkill_def)
      next
        case (Inr r)
        obtain ver db' where r: "r = (ver, db')" by (cases r)
        from updateSkill_shape[OF old Inr[unfolded r]] have "ver = Suc (row_version old)" by blast
        with Some v old Inr r show ?thesis by (auto simp: putSkill_def)
      qed
    qed
  qed
qed

lemma deleteSkill_shape:
  "snd (deleteSkill db sid) = db \<or>
   (\<exists>i. snd (deleteSkill db sid) =
      db\<lparr>skills := filter (\<lambda>row. row_id row \<noteq> i) (skills db),
          skill_versions :=
            (if foreign_keys db then filter (\<lambda>v. ver_skill_id v \<noteq> i) (skill_versions db)
             else skill_versions db)\<rparr>)"
  by (auto simp: deleteSkill_def split: option.splits)

lemma publishSkill_shape:
  "snd (publishSkill db sid tok outcome t) = db \<or>
   (\<exists>i f. (\<forall>row. row_id (f row) = row_id row \<and> row_version (f row) = row_version row) \<and>
      snd (publishSkill db sid tok outcome t) =
        db\<lparr>skills := map (\<lambda>row. if row_id row \<noteq> i then row else f row) (skills db)\<rparr>)"
proof (cases "snd (publishSkill db sid tok outcome t) = db")
  case True
  then show ?thesis by simp
next
  case False
  then obtain i skill res where "sid = Some i" "selectSkill db i = Some skill"
    and "outcome = Inr res"
    by (auto simp: publishSkill_def split: option.splits if_splits sum.splits)
  then have e: "snd (publishSkill db sid tok outcome t) =
      db\<lparr>skills := map (\<lambda>row. if row_id row \<noteq> i then row
         else row\<lparr>row_metadata := setProp (row_metadata skill) ''github'' res,
                  row_updated_at := t\<rparr>) (skills db)\<rparr>"
    using False by (auto simp: publishSkill_def split: option.splits if_splits sum.splits)
  show ?thesis
    by (rule disjI2, rule exI[of _ i],
        rule exI[of _ "\<lambda>row. row\<lparr>row_metadata := setProp (row_metadata skill) ''github'' res,
                  row_updated_at := t\<rparr>"]) (simp add: e)
qed


lemma serve_cases:
  obtains (same) "serve rt r db = db" and "\<And>j. \<not> updates j r db"
  | (created) row where "row_id row = Suc (skills_seq db)" and "row_version row = 1"
      and "serve rt r db = db\<lparr>skills := skills db @ [row], skills_seq := Suc (skills_seq db)\<rparr>"
      and "\<And>j. \<not> updates j r db"
  | (updated) i old f snap where "selectSkill db i = Some old"
      and "\<And>row. row_id (f row) = row_id row" and "\<And>row. row_version (f row) = Suc (row_version row)"
      and "ver_skill_id snap = i" and "ver_version snap = row_version old"
      and "serve rt r db = db\<lparr>skill_versions := skill_versions db @ [snap],
              skill_versions_seq := Suc (skill_versions_seq db),
              skills := map (\<lambda>row. if row_id row \<noteq> i then row else f row) (skills db)\<rparr>"
      and "\<And>j. updates j r db = (j = i)"
  | (published) i f where "\<And>row. row_id (f row) = row_id row"
      and "\<And>row. row_version (f row) = row_version row"
      and "serve rt r db = db\<lparr>skills := map (\<lambda>row. if row_id row \<noteq> i then row else f row) (skills db)\<rparr>"
      and "\<And>j. \<not> updates j r db"
  | (deleted) i where "serve rt r db =
      db\<lparr>skills := filter (\<lambda>row. row_id row \<noteq> i) (skills db),
          skill_versions :=
            (if foreign_keys db then filter (\<lambda>v. ver_skill_id v \<noteq> i) (skill_versions db)
             else skill_versions db)\<rparr>"
      and "\<And>j. \<not> updates j r db"
proof -
  obtain t q where r: "r = (t, q)" by (cases r)
  show ?thesis
  proof (cases q)
    case (GenerateSkill a n ty d tags)
    with r have u: "\<And>j. \<not> updates j r db" by simp
    from generateSkill_shape[of rt db a n ty d tags t] show ?thesis
    proof
      assume "snd (generateSkill rt db a n ty d tags t) = db"
      with r GenerateSkill have "serve rt r db = db" by simp
      then show ?thesis using u by (rule same)
    next
      assume "\<exists>row. row_id row = Suc (skills_seq db) \<and> row_version row = 1 \<and>
        snd (generateSkill rt db a n ty d tags t) =
          db\<lparr>skills := skills db @ [row], skills_seq := Suc (skills_seq db)\<rparr>"
      then obtain row where "row_id row = Suc (skills_seq db)" "row_version row = 1"
        "snd (generateSkill rt db a n ty d tags t) =
          db\<lparr>skills := skills db @ [row], skills_seq := Suc (skills_seq db)\<rparr>" by blast
      with r GenerateSkill u show ?thesis by (intro created[of row]) simp_all
    qed
  next
    case (PutSkill sid body)
    from putSkill_shape[of db sid body t] show ?thesis
    proof
      assume a: "snd (putSkill db sid body t) = db \<and>
        (\<forall>i ver. fst (putSkill db sid body t) \<noteq> Reply200 (i, ver))"
      have "fst (putSkill db sid body t) \<noteq> Reply200 answer" for answer
        using a by (cases answer) simp
      with a r PutSkill have "serve rt r db = db" and "\<And>j. \<not> updates j r db"
        by (auto split: reply.splits)
      then show ?thesis by (rule same)
    next
      assume "\<exists>i old v. sid = Some i \<and> selectSkill db i = Some old \<and>
        updateSkill db i v t = Inr (Suc (row_version old), snd (putSkill db sid body t)) \<and>
        fst (putSkill db sid body t) = Reply200 (i, Suc (row_version old))"
      then obtain i old v where sid: "sid = Some i" and old: "selectSkill db i = Some old"
        and up: "updateSkill db i v t = Inr (Suc (row_version old), snd (putSkill db sid body t))"
        and rep: "fst (putSkill db sid body t) = Reply200 (i, Suc (row_version old))" by blast
      from updateSkill_shape[OF old up] obtain f snap
        where f: "\<forall>row. row_id (f row) = row_id row \<and> row_version (f row) = Suc (row_version row)"
          and snap: "ver_skill_id snap = i" "ver_version snap = row_version old"
          and db': "snd (putSkill db sid body t) = db\<lparr>skill_versions := skill_versions db @ [snap],
              skill_versions_seq := Suc (skill_versions_seq db),
              skills := map (\<lambda>row. if row_id row \<noteq> i then row else f row) (skills db)\<rparr>"
        by blast
      from r PutSkill sid rep have u: "\<And>j. updates j r db = (j = i)" by auto
      from r PutSkill db' have "serve rt r db = db\<lparr>skill_versions := skill_versions db @ [snap],
              skill_versions_seq := Suc (skill_versions_seq db),
              skills := map (\<lambda>row. if row_id row \<noteq> i then row else f row) (skills db)\<rparr>"
        by simp
      with old f snap u show ?thesis by (intro updated[of i old f snap]) simp_all
    qed
  next
    case (DeleteSkill sid)
    with r have u: "\<And>j. \<not> updates j r db" by simp
    from deleteSkill_shape[of db sid] show ?thesis
    proof
      assume "snd (deleteSkill db sid) = db"
      with r DeleteSkill have "serve rt r db = db" by simp
      then show ?thesis using u by (rule same)
    next
      assume "\<exists>i. snd (deleteSkill db sid) =
        db\<lparr>skills := filter (\<lambda>row. row_id row \<noteq> i) (skills db),
          skill_versions :=
            (if foreign_keys db then filter (\<lambda>v. ver_skill_id v \<noteq> i) (skill_versions db)
             else skill_versions db)\<rparr>"
      then obtain i where "snd (deleteSkill db sid) =
        db\<lparr>skills := filter (\<lambda>row. row_id row \<noteq> i) (skills db),
          skill_versions :=
            (if foreign_keys db then filter (\<lambda>v. ver_skill_id v \<noteq> i) (skill_versions db)
             else skill_versions db)\<rparr>" by blast
      with r DeleteSkill u show ?thesis by (intro deleted[of i]) simp_all
    qed
  next
    case (PublishSkill sid tok outcome)
    with r have u: "\<And>j. \<not> updates j r db" by simp
    from publishSkill_shape[of db sid tok outcome t] show ?thesis
    proof
      assume "snd (publishSkill db sid tok outcome t) = db"
      with r PublishSkill have "serve rt r db = db" by simp
      then show ?thesis using u by (rule same)
    next
      assume "\<exists>i f. (\<forall>row. row_id (f row) = row_id row \<and> row_version (f row) = row_version row) \<and>
        snd (publishSkill db sid tok outcome t) =
          db\<lparr>skills := map (\<lambda>row. if row_id row \<noteq> i then row else f row) (skills db)\<rparr>"
      then obtain i f where "\<forall>row. row_id (f row) = row_id row \<and> row_version (f row) = row_version row"
        and "snd (publishSkill db sid tok outcome t) =
          db\<lparr>skills := map (\<lambda>row. if row_id row \<noteq> i then row else f row) (skills db)\<rparr>"
        by blast
      with r PublishSkill u show ?thesis by (intro published[of f i]) simp_all
    qed
  qed
qed


lemma find_distinct_key:
  "distinct (map f xs) \<Longrightarrow> x \<in> set xs \<Longrightarrow> find (\<lambda>y. f y = f x) xs = Some x"
  by (induction xs) (auto simp: image_iff)

lemma selectSkill_mem: "selectSkill db i = Some r \<Longrightarrow> r \<in> set (skills db) \<and> row_id r = i"
  by (auto simp: selectSkill_def find_Some_iff)

lemma selectSkill_None_iff: "(selectSkill db i = None) = (i \<notin> row_id ` set (skills db))"
  by (auto simp: selectSkill_def find_None_iff)

lemma selectSkill_distinct:
  "distinct (map row_id (skills db)) \<Longrightarrow> r \<in> set (skills db) \<Longrightarrow>
   selectSkill db (row_id r) = Some r"
  unfolding selectSkill_def by (rule find_distinct_key)

lemma upt_snoc_version: "1 \<le> v \<Longrightarrow> [1..<v] @ [v] = [1..<Suc v]"
  by simp

lemma storeInv_created:
  assumes inv: "storeInv db" and id: "row_id row = Suc (skills_seq db)"
    and v: "row_version row = 1"
  shows "storeInv (db\<lparr>skills := skills db @ [row], skills_seq := Suc (skills_seq db)\<rparr>)"
proof -
  from inv have d: "distinct (map row_id (skills db))"
    and rows: "\<And>r. r \<in> set (skills db) \<Longrightarrow> row_id r \<le> skills_seq db \<and> 1 \<le> row_version r \<and>
         map ver_version (snapshotsOf db (row_id r)) = [1..<row_version r]"
    and vers: "\<And>x. x \<in> set (skill_versions db) \<Longrightarrow> ver_skill_id x \<le> skills_seq db"
    by (auto simp: storeInv_def)
  have fresh: "Suc (skills_seq db) \<notin> row_id ` set (skills db)"
    using rows by force
  have none: "filter (\<lambda>x. ver_skill_id x = Suc (skills_seq db)) (skill_versions db) = []"
    using vers by (force simp: filter_empty_conv)
  show ?thesis
    unfolding storeInv_def
    using d rows vers fresh none
    by (auto simp: snapshotsOf_def id v le_SucI)
qed

lemma storeInv_updated:
  assumes inv: "storeInv db" and old: "selectSkill db i = Some old"
    and fid: "\<And>row. row_id (f row) = row_id row"
    and fv: "\<And>row. row_version (f row) = Suc (row_version row)"
    and sid: "ver_skill_id snap = i" and sv: "ver_version snap = row_version old"
  shows "storeInv (db\<lparr>skill_versions := skill_versions db @ [snap],
              skill_versions_seq := n,
              skills := map (\<lambda>row. if row_id row \<noteq> i then row else f row) (skills db)\<rparr>)"
proof -
  let ?g = "\<lambda>row. if row_id row \<noteq> i then row else f row"
  define db' where "db' = db\<lparr>skill_versions := skill_versions db @ [snap],
              skill_versions_seq := n, skills := map ?g (skills db)\<rparr>"
  have sk: "skills db' = map ?g (skills db)"
    and ve: "skill_versions db' = skill_versions db @ [snap]"
    and sq: "skills_seq db' = skills_seq db"
    by (simp_all add: db'_def)
  from inv have d: "distinct (map row_id (skills db))"
    and rows: "\<And>r. r \<in> set (skills db) \<Longrightarrow> row_id r \<le> skills_seq db \<and> 1 \<le> row_version r \<and>
         map ver_version (snapshotsOf db (row_id r)) = [1..<row_version r]"
    and vers: "\<And>x. x \<in> set (skill_versions db) \<Longrightarrow> ver_skill_id x \<le> skills_seq db"
    by (auto simp: storeInv_def)
  from selectSkill_mem[OF old] have om: "old \<in> set (skills db)" and oi: "row_id old = i"
    by simp_all
  have ids: "row_id \<circ> ?g = row_id"
    by (rule ext) (simp add: fid)
  have snaps: "snapshotsOf db' j = snapshotsOf db j @ (if j = i then [snap] else [])" for j
    using sid by (auto simp: snapshotsOf_def ve)
  have 1: "distinct (map row_id (skills db'))"
    using d by (simp add: sk ids)
  have 2: "ver_skill_id x \<le> skills_seq db'" if "x \<in> set (skill_versions db')" for x
  proof -
    from that have "x \<in> set (skill_versions db) \<or> x = snap" by (auto simp: ve)
    with vers rows[OF om] sid oi show ?thesis by (auto simp: sq)
  qed
  have 3: "row_id r' \<le> skills_seq db' \<and> 1 \<le> row_version r' \<and>
         map ver_version (snapshotsOf db' (row_id r')) = [1..<row_version r']"
    if "r' \<in> set (skills db')" for r'
  proof -
    from that obtain r where rm: "r \<in> set (skills db)" and r': "r' = ?g r"
      by (auto simp: sk)
    show ?thesis
    proof (cases "row_id r = i")
      case False
      with r' rows[OF rm] show ?thesis by (simp add: snaps sq)
    next
      case True
      with selectSkill_distinct[OF d rm] old have "r = old" by simp
      with True r' rows[OF om] sv fid fv show ?thesis
        by (simp add: snaps sq)
    qed
  qed
  from 1 2 3 have "storeInv db'" unfolding storeInv_def by blast
  then show ?thesis by (simp add: db'_def)
qed

lemma storeInv_published:
  assumes inv: "storeInv db"
    and fid: "\<And>row. row_id (f row) = row_id row"
    and fv: "\<And>row. row_version (f row) = row_version row"
  shows "storeInv (db\<lparr>skills := map (\<lambda>row. if row_id row \<noteq> i then row else f row) (skills db)\<rparr>)"
proof -
  let ?g = "\<lambda>row. if row_id row \<noteq> i then row else f row"
  have gid: "row_id (?g row) = row_id row" and gv: "row_version (?g row) = row_version row" for row
    by (simp_all add: fid fv)
  have ids: "row_id \<circ> ?g = row_id"
    by (rule ext) (simp add: fid)
  from inv show ?thesis
    unfolding storeInv_def snapshotsOf_def
    by (auto simp: ids fid fv)
qed

lemma storeInv_deleted:
  assumes inv: "storeInv db"
  shows "storeInv (db\<lparr>skills := filter (\<lambda>row. row_id row \<noteq> i) (skills db),
          skill_versions :=
            (if foreign_keys db then filter (\<lambda>v. ver_skill_id v \<noteq> i) (skill_versions db)
             else skill_versions db)\<rparr>)"
proof -
  have "filter (\<lambda>v. ver_skill_id v = j) (filter (\<lambda>v. ver_skill_id v \<noteq> i) vs) =
        filter (\<lambda>v. ver_skill_id v = j) vs" if "j \<noteq> i" for j and vs :: "skill_version_row list"
    using that by (induction vs) auto
  with inv show ?thesis
    unfolding storeInv_def snapshotsOf_def
    by (auto simp: distinct_map_filter)
qed

lemma serve_inv: "storeInv db \<Longrightarrow> storeInv (serve rt r db)"
  by (cases rule: serve_cases[where rt=rt and r=r and db=db])
     (simp_all add: storeInv_created storeInv_updated storeInv_published storeInv_deleted)

lemma serveAll_inv: "storeInv db \<Longrightarrow> storeInv (serveAll rt rs db)"
  unfolding serveAll_def by (induction rs arbitrary: db) (simp_all add: serve_inv)

lemma emptyDatabase_inv: "storeInv (emptyDatabase fk)"
  by (simp add: storeInv_def emptyDatabase_def)


lemma find_snoc:
  "find P (xs @ [x]) = (case find P xs of Some y \<Rightarrow> Some y | None \<Rightarrow> if P x then Some x else None)"
  by (induction xs) simp_all

lemma find_filter_key:
  "find (\<lambda>x. f x = i) (filter (\<lambda>x. f x \<noteq> j) xs) =
   (if i = j then None else find (\<lambda>x. f x = i) xs)"
  by (induction xs) auto

lemma selectSkill_created:
  "selectSkill (db\<lparr>skills := skills db @ [row], skills_seq := n\<rparr>) i =
   (case selectSkill db i of Some r \<Rightarrow> Some r
    | None \<Rightarrow> if row_id row = i then Some row else None)"
  by (simp add: selectSkill_def find_snoc)

lemma selectSkill_published:
  assumes "\<And>row. row_id (f row) = row_id row"
  shows "selectSkill (db\<lparr>skills := map (\<lambda>row. if row_id row \<noteq> i then row else f row) (skills db)\<rparr>) j =
         map_option (\<lambda>row. if row_id row \<noteq> i then row else f row) (selectSkill db j)"
  unfolding selectSkill_def using assms by (simp add: find_map_same)

lemma selectSkill_deleted:
  "selectSkill (db\<lparr>skills := filter (\<lambda>row. row_id row \<noteq> j) (skills db), skill_versions := vs\<rparr>) i =
   (if i = j then None else selectSkill db i)"
  by (simp add: selectSkill_def find_filter_key)

lemma selectSkill_bound:
  "storeInv db \<Longrightarrow> selectSkill db i = Some row \<Longrightarrow> i \<le> skills_seq db"
  using selectSkill_mem[of db i row] by (auto simp: storeInv_def)

text \<open>An id the counter has passed is never given out again.\<close>

lemma serve_retired:
  assumes inv: "storeInv db" and le: "i \<le> skills_seq db" and none: "selectSkill db i = None"
  shows "selectSkill (serve rt r db) i = None \<and> i \<le> skills_seq (serve rt r db)"
proof (cases rule: serve_cases[where rt=rt and r=r and db=db])
  case same
  with le none show ?thesis by simp
next
  case (created row)
  with le none show ?thesis by (simp add: selectSkill_created)
next
  case (updated j old f snap)
  with le none show ?thesis by (simp add: selectSkill_after_update)
next
  case (published j f)
  with le none show ?thesis by (simp add: selectSkill_published)
next
  case (deleted j)
  with le none show ?thesis by (simp add: selectSkill_deleted)
qed

lemma serveAll_retired:
  "storeInv db \<Longrightarrow> i \<le> skills_seq db \<Longrightarrow> selectSkill db i = None \<Longrightarrow>
   selectSkill (serveAll rt rs db) i = None"
proof (induction rs arbitrary: db)
  case Nil
  then show ?case by (simp add: serveAll_def)
next
  case (Cons r rs)
  from serve_retired[OF Cons.prems, of rt r] serve_inv[OF Cons.prems(1), of rt r]
  have "selectSkill (serveAll rt rs (serve rt r db)) i = None"
    by (intro Cons.IH) simp_all
  then show ?case by (simp add: serveAll_def)
qed

text \<open>One request moves the version of a skill by one exactly when it is a successful update of it.\<close>

lemma serve_version:
  assumes inv: "storeInv db"
    and before: "selectSkill db i = None \<longrightarrow> skills_seq db < i"
    and after: "selectSkill (serve rt r db) i = None \<longrightarrow> skills_seq (serve rt r db) < i"
  shows "versionBefore (serve rt r db) i = versionBefore db i + (if updates i r db then 1 else 0)"
proof (cases rule: serve_cases[where rt=rt and r=r and db=db])
  case same
  then show ?thesis by simp
next
  case (created row)
  then show ?thesis
    by (auto simp: versionBefore_def selectSkill_created split: option.splits)
next
  case (updated j old f snap)
  show ?thesis
  proof (cases "selectSkill db i")
    case None
    with updated(1) have "i \<noteq> j" by auto
    with None updated show ?thesis
      by (simp add: versionBefore_def selectSkill_after_update)
  next
    case (Some x)
    with selectSkill_mem[of db i x] have "row_id x = i" by simp
    with Some updated show ?thesis
      by (simp add: versionBefore_def selectSkill_after_update)
  qed
next
  case (published j f)
  show ?thesis
  proof (cases "selectSkill db i")
    case None
    with published show ?thesis
      by (simp add: versionBefore_def selectSkill_published)
  next
    case (Some x)
    with published show ?thesis
      by (simp add: versionBefore_def selectSkill_published)
  qed
next
  case (deleted j)
  show ?thesis
  proof (cases "i = j")
    case False
    with deleted show ?thesis by (simp add: versionBefore_def selectSkill_deleted)
  next
    case True
    with deleted after have "skills_seq db < i" by (simp add: selectSkill_deleted)
    with selectSkill_bound[OF inv, of i] have "selectSkill db i = None"
      by (cases "selectSkill db i") auto
    with deleted True show ?thesis by (simp add: versionBefore_def selectSkill_deleted)
  qed
qed

lemma serveAll_version:
  assumes "storeInv db" and "selectSkill db i = None \<longrightarrow> skills_seq db < i"
    and "selectSkill (serveAll rt rs db) i = Some row"
  shows "row_version row = versionBefore db i + successfulUpdates rt i rs db"
  using assms
proof (induction rs arbitrary: db)
  case Nil
  then show ?case by (simp add: serveAll_def versionBefore_def)
next
  case (Cons r rs)
  let ?db = "serve rt r db"
  have inv': "storeInv ?db" using Cons.prems(1) by (rule serve_inv)
  have final: "selectSkill (serveAll rt rs ?db) i = Some row"
    using Cons.prems(3) by (simp add: serveAll_def)
  have after: "selectSkill ?db i = None \<longrightarrow> skills_seq ?db < i"
  proof (rule impI, rule ccontr)
    assume "selectSkill ?db i = None" and "\<not> skills_seq ?db < i"
    with serveAll_retired[OF inv', of i rt rs] final show False by simp
  qed
  from Cons.IH[OF inv' after final] serve_version[OF Cons.prems(1,2) after]
  show ?case by simp
qed

lemma versionBefore_empty: "versionBefore (emptyDatabase fk) i = 1"
  by (simp add: versionBefore_def selectSkill_def emptyDatabase_def)

lemma selectSkill_empty: "selectSkill (emptyDatabase fk) i = None"
  by (simp add: selectSkill_def emptyDatabase_def)

text \<open>
  Claim C1. Take any sequence of requests served from the empty database, with the foreign
  keys enforced or not, and any skill in the store afterwards. Its version is 1 plus the
  number of its snapshots, and 1 plus the number of updates of it that succeeded; the
  snapshots are as many as those updates, and their versions are 1 up to that number, in
  the order they were taken. A skill just created is the case of no update: version 1 and
  no snapshot.
\<close>

theorem version_counts_snapshots:
  assumes "db = serveAll rt reqs (emptyDatabase fk)" and "row \<in> set (skills db)"
  shows "row_version row = 1 + length (snapshotsOf db (row_id row)) \<and>
         row_version row = 1 + successfulUpdates rt (row_id row) reqs (emptyDatabase fk) \<and>
         length (snapshotsOf db (row_id row)) =
           successfulUpdates rt (row_id row) reqs (emptyDatabase fk) \<and>
         map ver_version (snapshotsOf db (row_id row)) =
           [1..<Suc (successfulUpdates rt (row_id row) reqs (emptyDatabase fk))]"
proof -
  have inv: "storeInv db"
    unfolding assms(1) by (rule serveAll_inv, rule emptyDatabase_inv)
  with assms(2) have d: "distinct (map row_id (skills db))" and v: "1 \<le> row_version row"
    and snaps: "map ver_version (snapshotsOf db (row_id row)) = [1..<row_version row]"
    by (auto simp: storeInv_def)
  from arg_cong[OF snaps, of length] v
  have count: "row_version row = 1 + length (snapshotsOf db (row_id row))" by simp
  have sel: "selectSkill (serveAll rt reqs (emptyDatabase fk)) (row_id row) = Some row"
    using selectSkill_distinct[OF d assms(2)] by (simp add: assms(1))
  have pos: "0 < row_id row"
  proof (rule ccontr)
    assume "\<not> 0 < row_id row"
    with serveAll_retired[OF emptyDatabase_inv, of "row_id row" fk rt reqs] sel
    show False by (simp add: selectSkill_empty)
  qed
  have "skills_seq (emptyDatabase fk) = 0" by (simp add: emptyDatabase_def)
  with pos have fresh: "selectSkill (emptyDatabase fk) (row_id row) = None \<longrightarrow>
      skills_seq (emptyDatabase fk) < row_id row" by simp
  from serveAll_version[OF emptyDatabase_inv fresh sel]
  have "row_version row = 1 + successfulUpdates rt (row_id row) reqs (emptyDatabase fk)"
    by (simp add: versionBefore_empty)
  with count snaps show ?thesis by simp
qed

theorem version_counts_snapshots_witness:
  "map row_version (skills (serveAll plainRuntime
      [(0, GenerateSkill sampleAnalysis ''My Skill!!'' ''process'' None None),
       (5, PutSkill (Some 1) (JObj [(''description'', JStr ''Better'')])),
       (7, PutSkill (Some 1) (JObj [(''mainContent'', JStr ''# New'')])),
       (9, PutSkill (Some 1) (JObj [(''tags'', JArr [JStr ''ops''])]))]
      (emptyDatabase True))) = [3] \<and>
   map (\<lambda>row. successfulUpdates plainRuntime (row_id row)
      [(0, GenerateSkill sampleAnalysis ''My Skill!!'' ''process'' None None),
       (5, PutSkill (Some 1) (JObj [(''description'', JStr ''Better'')])),
       (7, PutSkill (Some 1) (JObj [(''mainContent'', JStr ''# New'')])),
       (9, PutSkill (Some 1) (JObj [(''tags'', JArr [JStr ''ops''])]))]
      (emptyDatabase True))
     (skills (serveAll plainRuntime
      [(0, GenerateSkill sampleAnalysis ''My Skill!!'' ''process'' None None),
       (5, PutSkill (Some 1) (JObj [(''description'', JStr ''Better'')])),
       (7, PutSkill (Some 1) (JObj [(''mainContent'', JStr ''# New'')])),
       (9, PutSkill (Some 1) (JObj [(''tags'', JArr [JStr ''ops''])]))]
      (emptyDatabase True))) = [2] \<and>
   map (\<lambda>row. map ver_version (snapshotsOf (serveAll plainRuntime
      [(0, GenerateSkill sampleAnalysis ''My Skill!!'' ''process'' None None),
       (5, PutSkill (Some 1) (JObj [(''description'', JStr ''Better'')])),
       (7, PutSkill (Some 1) (JObj [(''mainContent'', JStr ''# New'')])),
       (9, PutSkill (Some 1) (JObj [(''tags'', JArr [JStr ''ops''])]))]
      (emptyDatabase True)) (row_id row)))
     (skills (serveAll plainRuntime
      [(0, GenerateSkill sampleAnalysis ''My Skill!!'' ''process'' None None),
       (5, PutSkill (Some 1) (JObj [(''description'', JStr ''Better'')])),
       (7, PutSkill (Some 1) (JObj [(''mainContent'', JStr ''# New'')])),
       (9, PutSkill (Some 1) (JObj [(''tags'', JArr [JStr ''ops''])]))]
      (emptyDatabase True))) = [[1, 2]]"
proof -
  define reqs where "reqs =
      [(0, GenerateSkill sampleAnalysis ''My Skill!!'' ''process'' None None),
       (5, PutSkill (Some 1) (JObj [(''description'', JStr ''Better'')])),
       (7, PutSkill (Some 1) (JObj [(''mainContent'', JStr ''# New'')])),
       (9 :: int, PutSkill (Some 1) (JObj [(''tags'', JArr [JStr ''ops''])]))]"
  define db where "db = serveAll plainRuntime reqs (emptyDatabase True)"
  have "map row_version (skills (serveAll plainRuntime
      [(0, GenerateSkill sampleAnalysis ''My Skill!!'' ''process'' None None),
       (5, PutSkill (Some 1) (JObj [(''description'', JStr ''Better'')])),
       (7, PutSkill (Some 1) (JObj [(''mainContent'', JStr ''# New'')])),
       (9, PutSkill (Some 1) (JObj [(''tags'', JArr [JStr ''ops''])]))]
      (emptyDatabase True))) = [3]"
    by code_simp
  then have e: "map row_version (skills db) = [3]"
    by (simp only: db_def reqs_def)
  then have "\<exists>row. skills db = [row] \<and> row_version row = 3"
    by (cases "skills db") auto
  then obtain row where sk: "skills db = [row]" and v: "row_version row = 3"
    by blast
  from sk have "row \<in> set (skills db)" by simp
  from version_counts_snapshots[OF db_def this] v
  have "successfulUpdates plainRuntime (row_id row) reqs (emptyDatabase True) = 2"
    and "map ver_version (snapshotsOf db (row_id row)) = [1, 2]"
    by (simp_all add: upt_rec)
  with e sk have "map row_version (skills db) = [3] \<and>
    map (\<lambda>row. successfulUpdates plainRuntime (row_id row) reqs (emptyDatabase True))
      (skills db) = [2] \<and>
    map (\<lambda>row. map ver_version (snapshotsOf db (row_id row))) (skills db) = [[1, 2]]"
    by simp
  then show ?thesis by (simp only: db_def reqs_def)
qed


end
